theory Spec2Isabelle
  imports Main "HOL-Library.Word"
begin

unbundle bit_operations_syntax

section \<open>The per-transaction file system cache of \<open>mypy/fscache.py\<close>\<close>

text \<open>
  The module caches every file system read made during one transaction. The model is a
  shallow embedding: each method is a function from a state to a result and a new state,
  an exception is the \<open>Inl\<close> branch of the result, and the operating system is an
  explicit part of the state.
\<close>

subsection \<open>Exceptions\<close>

text \<open>
  Values of type \<open>exn\<close> stand for instances of Python's \<open>Exception\<close>: the class and the
  message. \<open>except Exception\<close> therefore catches every value of the type; \<open>except OSError\<close>
  and \<open>except FileNotFoundError\<close> catch the instances of the class and its subclasses.
\<close>

datatype exn_class =
    OSError
  | FileNotFoundError
  | PermissionError
  | NotADirectoryError
  | IsADirectoryError
  | ValueError
  | DecodeError
  | KeyError

datatype exn = Exn (exn_cls: exn_class) (exn_msg: string)

fun subclass_of_OSError :: "exn_class \<Rightarrow> bool" where
  "subclass_of_OSError OSError = True"
| "subclass_of_OSError FileNotFoundError = True"
| "subclass_of_OSError PermissionError = True"
| "subclass_of_OSError NotADirectoryError = True"
| "subclass_of_OSError IsADirectoryError = True"
| "subclass_of_OSError ValueError = False"
| "subclass_of_OSError DecodeError = False"
| "subclass_of_OSError KeyError = False"

definition isinstance_OSError :: "exn \<Rightarrow> bool" where
  "isinstance_OSError e = subclass_of_OSError (exn_cls e)"

definition isinstance_FileNotFoundError :: "exn \<Rightarrow> bool" where
  "isinstance_FileNotFoundError e = (exn_cls e = FileNotFoundError)"

subsection \<open>The operating system and the decoder\<close>

type_synonym path = string

text \<open>\<open>os.stat_result\<close>, with the fields a caller of the cache reads.\<close>

record stat_result =
  st_mode :: int
  st_size :: int
  st_mtime_ns :: int

text \<open>\<open>stat.S_ISREG\<close> and \<open>stat.S_ISDIR\<close>: the file type bits \<open>0o170000\<close> of the mode.\<close>

definition S_IFMT :: "int \<Rightarrow> int" where
  "S_IFMT mode = mode AND 61440"

definition S_ISREG :: "int \<Rightarrow> bool" where
  "S_ISREG mode = (S_IFMT mode = 32768)"

definition S_ISDIR :: "int \<Rightarrow> bool" where
  "S_ISDIR mode = (S_IFMT mode = 16384)"

text \<open>
  One snapshot of the file system answers the three external reads of the module:
  \<open>os.stat\<close>, \<open>os.listdir\<close> and \<open>mypy.util.read_with_python_encoding\<close> (which takes the
  Python version and returns the decoded text with its MD5 digest). The three are
  parameters of the model.
\<close>

record filesystem =
  os_stat :: "path \<Rightarrow> exn + stat_result"
  os_listdir :: "path \<Rightarrow> exn + string list"
  util_read_with_python_encoding :: "path \<Rightarrow> int \<times> int \<Rightarrow> exn + string \<times> string"

text \<open>
  The file system may change at any moment. The world holds a snapshot for every instant,
  where the instant is the number of external reads made so far, and the list of these
  reads, oldest first (what a call-counting stub of the primitives would record).
\<close>

datatype os_call = OsStat path | OsListdir path | OsRead path

record world =
  timeline :: "nat \<Rightarrow> filesystem"
  syscalls :: "os_call list"

definition now :: "world \<Rightarrow> filesystem" where
  "now w = timeline w (length (syscalls w))"

definition call_os_stat :: "path \<Rightarrow> world \<Rightarrow> (exn + stat_result) \<times> world" where
  "call_os_stat p w = (os_stat (now w) p, w\<lparr>syscalls := syscalls w @ [OsStat p]\<rparr>)"

definition call_os_listdir :: "path \<Rightarrow> world \<Rightarrow> (exn + string list) \<times> world" where
  "call_os_listdir p w = (os_listdir (now w) p, w\<lparr>syscalls := syscalls w @ [OsListdir p]\<rparr>)"

definition call_util_read ::
  "path \<Rightarrow> int \<times> int \<Rightarrow> world \<Rightarrow> (exn + string \<times> string) \<times> world" where
  "call_util_read p v w =
     (util_read_with_python_encoding (now w) p v, w\<lparr>syscalls := syscalls w @ [OsRead p]\<rparr>)"

text \<open>
  \<open>os.path.split\<close> of \<open>posixpath\<close>: the tail is what follows the last slash, the head
  what precedes it, with its trailing slashes removed unless it consists of slashes only.
\<close>

definition rstrip_sep :: "string \<Rightarrow> string" where
  "rstrip_sep s = rev (dropWhile (\<lambda>c. c = CHR ''/'') (rev s))"

definition os_path_split :: "path \<Rightarrow> path \<times> path" where
  "os_path_split p =
     (let tail = rev (takeWhile (\<lambda>c. c \<noteq> CHR ''/'') (rev p));
          head = take (length p - length tail) p
      in (if head \<noteq> [] \<and> head \<noteq> replicate (length head) (CHR ''/'')
          then rstrip_sep head else head, tail))"

subsection \<open>The two cache classes\<close>

text \<open>
  \<open>FileSystemMetaCache\<close>: \<open>stat_cache\<close> and \<open>listdir_cache\<close> are the dictionaries inside
  the two \<open>functools.lru_cache(maxsize=None)\<close> wrappers, which store a result under the
  argument when the wrapped method returns and nothing when it raises.
  \<open>FileSystemCache\<close> extends the class.
\<close>

record FileSystemMetaCache =
  stat_cache :: "path \<rightharpoonup> stat_result"
  listdir_cache :: "path \<rightharpoonup> string list"
  stat_error_cache :: "path \<rightharpoonup> exn"
  listdir_error_cache :: "path \<rightharpoonup> exn"

record FileSystemCache = FileSystemMetaCache +
  pyversion :: "int \<times> int"
  read_cache :: "path \<rightharpoonup> string"
  read_error_cache :: "path \<rightharpoonup> exn"
  hash_cache :: "path \<rightharpoonup> string"

type_synonym 'a meta_state = "world \<times> 'a FileSystemMetaCache_scheme"
type_synonym state = "world \<times> FileSystemCache"

text \<open>\<open>FileSystemMetaCache.flush\<close>.\<close>

definition meta_flush :: "'a FileSystemMetaCache_scheme \<Rightarrow> 'a FileSystemMetaCache_scheme" where
  "meta_flush c = c\<lparr>stat_cache := Map.empty, listdir_cache := Map.empty,
                    stat_error_cache := Map.empty, listdir_error_cache := Map.empty\<rparr>"

text \<open>\<open>FileSystemCache.flush\<close>: the parent's flush, then three fresh dictionaries.\<close>

definition flush :: "FileSystemCache \<Rightarrow> FileSystemCache" where
  "flush c = (meta_flush c)\<lparr>read_cache := Map.empty, read_error_cache := Map.empty,
                            hash_cache := Map.empty\<rparr>"

text \<open>\<open>FileSystemCache.__init__\<close>: the parent's constructor, the version, then \<open>flush\<close>.\<close>

definition FileSystemCache_init :: "int \<times> int \<Rightarrow> FileSystemCache" where
  "FileSystemCache_init v =
     flush \<lparr>stat_cache = Map.empty, listdir_cache = Map.empty,
            stat_error_cache = Map.empty, listdir_error_cache = Map.empty,
            pyversion = v, read_cache = Map.empty, read_error_cache = Map.empty,
            hash_cache = Map.empty\<rparr>"

text \<open>\<open>_stat\<close> and \<open>_listdir\<close>, the methods under the wrappers.\<close>

definition u_stat :: "path \<Rightarrow> 'a meta_state \<Rightarrow> (exn + stat_result) \<times> 'a meta_state" where
  "u_stat p s =
     (case s of (w, c) \<Rightarrow>
        (case stat_error_cache c p of
           Some e \<Rightarrow> (Inl e, (w, c))
         | None \<Rightarrow>
            (case call_os_stat p w of
               (Inr r, w') \<Rightarrow> (Inr r, (w', c))
             | (Inl err, w') \<Rightarrow>
                 (Inl err, (w', c\<lparr>stat_error_cache := (stat_error_cache c)(p \<mapsto> err)\<rparr>)))))"

definition u_listdir :: "path \<Rightarrow> 'a meta_state \<Rightarrow> (exn + string list) \<times> 'a meta_state" where
  "u_listdir p s =
     (case s of (w, c) \<Rightarrow>
        (case listdir_error_cache c p of
           Some e \<Rightarrow> (Inl e, (w, c))
         | None \<Rightarrow>
            (case call_os_listdir p w of
               (Inr r, w') \<Rightarrow> (Inr r, (w', c))
             | (Inl err, w') \<Rightarrow>
                 (Inl err, (w', c\<lparr>listdir_error_cache := (listdir_error_cache c)(p \<mapsto> err)\<rparr>)))))"

text \<open>\<open>self.stat\<close> and \<open>self.listdir\<close>: the wrapped methods.\<close>

definition stat :: "path \<Rightarrow> 'a meta_state \<Rightarrow> (exn + stat_result) \<times> 'a meta_state" where
  "stat p s =
     (case stat_cache (snd s) p of
        Some r \<Rightarrow> (Inr r, s)
      | None \<Rightarrow>
         (case u_stat p s of
            (Inr r, (w', c')) \<Rightarrow> (Inr r, (w', c'\<lparr>stat_cache := (stat_cache c')(p \<mapsto> r)\<rparr>))
          | (Inl e, s') \<Rightarrow> (Inl e, s')))"

definition listdir :: "path \<Rightarrow> 'a meta_state \<Rightarrow> (exn + string list) \<times> 'a meta_state" where
  "listdir p s =
     (case listdir_cache (snd s) p of
        Some r \<Rightarrow> (Inr r, s)
      | None \<Rightarrow>
         (case u_listdir p s of
            (Inr r, (w', c')) \<Rightarrow> (Inr r, (w', c'\<lparr>listdir_cache := (listdir_cache c')(p \<mapsto> r)\<rparr>))
          | (Inl e, s') \<Rightarrow> (Inl e, s')))"

text \<open>The boolean queries.\<close>

definition isfile :: "path \<Rightarrow> 'a meta_state \<Rightarrow> (exn + bool) \<times> 'a meta_state" where
  "isfile p s =
     (case stat p s of
        (Inl e, s') \<Rightarrow> if isinstance_OSError e then (Inr False, s') else (Inl e, s')
      | (Inr st, s') \<Rightarrow> (Inr (S_ISREG (st_mode st)), s'))"

definition isdir :: "path \<Rightarrow> 'a meta_state \<Rightarrow> (exn + bool) \<times> 'a meta_state" where
  "isdir p s =
     (case stat p s of
        (Inl e, s') \<Rightarrow> if isinstance_OSError e then (Inr False, s') else (Inl e, s')
      | (Inr st, s') \<Rightarrow> (Inr (S_ISDIR (st_mode st)), s'))"

definition exists :: "path \<Rightarrow> 'a meta_state \<Rightarrow> (exn + bool) \<times> 'a meta_state" where
  "exists p s =
     (case stat p s of
        (Inl e, s') \<Rightarrow> if isinstance_FileNotFoundError e then (Inr False, s') else (Inl e, s')
      | (Inr st, s') \<Rightarrow> (Inr True, s'))"

text \<open>
  \<open>isfile_case\<close>: the \<open>and\<close> evaluates \<open>self.isfile(path)\<close> only when the tail is in the
  listing; the \<open>except OSError\<close> covers both calls.
\<close>

definition isfile_case :: "path \<Rightarrow> 'a meta_state \<Rightarrow> (exn + bool) \<times> 'a meta_state" where
  "isfile_case p s =
     (case os_path_split p of (head, tail) \<Rightarrow>
        if tail = [] then (Inr False, s)
        else
          (case listdir head s of
             (Inl e, s1) \<Rightarrow> if isinstance_OSError e then (Inr False, s1) else (Inl e, s1)
           | (Inr names, s1) \<Rightarrow>
               if tail \<in> set names then
                 (case isfile p s1 of
                    (Inl e, s2) \<Rightarrow> if isinstance_OSError e then (Inr False, s2) else (Inl e, s2)
                  | (Inr b, s2) \<Rightarrow> (Inr b, s2))
               else (Inr False, s1)))"

text \<open>\<open>FileSystemCache.read_with_python_encoding\<close>.\<close>

definition read_with_python_encoding :: "path \<Rightarrow> state \<Rightarrow> (exn + string) \<times> state" where
  "read_with_python_encoding p s =
     (case read_cache (snd s) p of
        Some d \<Rightarrow> (Inr d, s)
      | None \<Rightarrow>
         (case read_error_cache (snd s) p of
            Some e \<Rightarrow> (Inl e, s)
          | None \<Rightarrow>
             (case stat p s of
                (Inl e, s1) \<Rightarrow> (Inl e, s1)
              | (Inr st, (w1, c1)) \<Rightarrow>
                 (case call_util_read p (pyversion c1) w1 of
                    (Inl err, w2) \<Rightarrow>
                      (Inl err, (w2, c1\<lparr>read_error_cache := (read_error_cache c1)(p \<mapsto> err)\<rparr>))
                  | (Inr (d, md5hash), w2) \<Rightarrow>
                      (Inr d, (w2, c1\<lparr>read_cache := (read_cache c1)(p \<mapsto> d),
                                      hash_cache := (hash_cache c1)(p \<mapsto> md5hash)\<rparr>))))))"

text \<open>
  \<open>FileSystemCache.md5\<close>: the content read is made when the path has no stored digest;
  the final \<open>self.hash_cache[path]\<close> raises \<open>KeyError\<close> when the key is missing.
\<close>

definition md5 :: "path \<Rightarrow> state \<Rightarrow> (exn + string) \<times> state" where
  "md5 p s =
     (if hash_cache (snd s) p = None then
        (case read_with_python_encoding p s of
           (Inl e, s1) \<Rightarrow> (Inl e, s1)
         | (Inr d, s1) \<Rightarrow>
            (case hash_cache (snd s1) p of
               Some h \<Rightarrow> (Inr h, s1)
             | None \<Rightarrow> (Inl (Exn KeyError p), s1)))
      else
        (case hash_cache (snd s) p of
           Some h \<Rightarrow> (Inr h, s)
         | None \<Rightarrow> (Inl (Exn KeyError p), s)))"

subsection \<open>Sequences of calls\<close>

text \<open>
  A client calls the public methods in any order and catches what they raise. \<open>exec\<close>
  dispatches one call; \<open>run\<close> performs a list of calls and collects the results.
\<close>

datatype call =
    Stat path
  | Listdir path
  | Isfile path
  | IsfileCase path
  | Isdir path
  | Exists path
  | ReadText path
  | Md5 path
  | Flush

datatype val = VStat stat_result | VNames "string list" | VBool bool | VStr string | VNone

definition lift :: "('a \<Rightarrow> val) \<Rightarrow> (exn + 'a) \<times> state \<Rightarrow> (exn + val) \<times> state" where
  "lift f r = (map_sum id f (fst r), snd r)"

fun exec :: "call \<Rightarrow> state \<Rightarrow> (exn + val) \<times> state" where
  "exec (Stat p) s = lift VStat (stat p s)"
| "exec (Listdir p) s = lift VNames (listdir p s)"
| "exec (Isfile p) s = lift VBool (isfile p s)"
| "exec (IsfileCase p) s = lift VBool (isfile_case p s)"
| "exec (Isdir p) s = lift VBool (isdir p s)"
| "exec (Exists p) s = lift VBool (exists p s)"
| "exec (ReadText p) s = lift VStr (read_with_python_encoding p s)"
| "exec (Md5 p) s = lift VStr (md5 p s)"
| "exec Flush s = (Inr VNone, (fst s, flush (snd s)))"

fun run :: "call list \<Rightarrow> state \<Rightarrow> (exn + val) list \<times> state" where
  "run [] s = ([], s)"
| "run (c # cs) s =
     (case exec c s of (r, s1) \<Rightarrow> (case run cs s1 of (rs, s2) \<Rightarrow> (r # rs, s2)))"

subsection \<open>What the caches already determine\<close>

text \<open>
  The answer that the caches of \<open>c\<close> fix for a call on \<open>p\<close>, if any: for \<open>stat\<close> and
  \<open>listdir\<close> the stored result or else the stored error; for the content read the stored
  text, else the stored read error, else a stored \<open>stat\<close> error; for the fingerprint the
  stored digest, else the error of the content read.
\<close>

definition stat_answer :: "'a FileSystemMetaCache_scheme \<Rightarrow> path \<Rightarrow> (exn + stat_result) option" where
  "stat_answer c p =
     (case stat_cache c p of
        Some r \<Rightarrow> Some (Inr r)
      | None \<Rightarrow> (case stat_error_cache c p of Some e \<Rightarrow> Some (Inl e) | None \<Rightarrow> None))"

definition listdir_answer :: "'a FileSystemMetaCache_scheme \<Rightarrow> path \<Rightarrow> (exn + string list) option" where
  "listdir_answer c p =
     (case listdir_cache c p of
        Some r \<Rightarrow> Some (Inr r)
      | None \<Rightarrow> (case listdir_error_cache c p of Some e \<Rightarrow> Some (Inl e) | None \<Rightarrow> None))"

definition read_answer :: "FileSystemCache \<Rightarrow> path \<Rightarrow> (exn + string) option" where
  "read_answer c p =
     (case read_cache c p of
        Some d \<Rightarrow> Some (Inr d)
      | None \<Rightarrow>
         (case read_error_cache c p of
            Some e \<Rightarrow> Some (Inl e)
          | None \<Rightarrow>
             (case stat_answer c p of Some (Inl e) \<Rightarrow> Some (Inl e) | _ \<Rightarrow> None)))"

definition md5_answer :: "FileSystemCache \<Rightarrow> path \<Rightarrow> (exn + string) option" where
  "md5_answer c p =
     (case hash_cache c p of
        Some h \<Rightarrow> Some (Inr h)
      | None \<Rightarrow>
         (case read_answer c p of
            Some (Inl e) \<Rightarrow> Some (Inl e)
          | Some (Inr d) \<Rightarrow> Some (Inl (Exn KeyError p))
          | None \<Rightarrow> None))"

text \<open>\<open>keeps c c'\<close>: every answer fixed by \<open>c\<close> is still the answer fixed by \<open>c'\<close>.\<close>

definition keeps :: "FileSystemCache \<Rightarrow> FileSystemCache \<Rightarrow> bool" where
  "keeps c c' \<longleftrightarrow>
     (\<forall>p r. stat_answer c p = Some r \<longrightarrow> stat_answer c' p = Some r)
   \<and> (\<forall>p r. listdir_answer c p = Some r \<longrightarrow> listdir_answer c' p = Some r)
   \<and> (\<forall>p r. read_answer c p = Some r \<longrightarrow> read_answer c' p = Some r)
   \<and> (\<forall>p r. md5_answer c p = Some r \<longrightarrow> md5_answer c' p = Some r)"

text \<open>The calls whose results the caches store.\<close>

fun memoised :: "call \<Rightarrow> bool" where
  "memoised (Stat p) = True"
| "memoised (Listdir p) = True"
| "memoised (ReadText p) = True"
| "memoised (Md5 p) = True"
| "memoised _ = False"

text \<open>
  \<open>coupled c\<close>: the content cache and the fingerprint cache of \<open>c\<close> have the same keys.
\<close>

definition coupled :: "FileSystemCache \<Rightarrow> bool" where
  "coupled c \<longleftrightarrow> dom (read_cache c) = dom (hash_cache c)"

subsection \<open>Example file systems\<close>

text \<open>
  \<open>demo_fs\<close> is a case-insensitive file system whose directory \<open>pkg\<close> holds the single
  entry \<open>Foo.py\<close>, so that \<open>os.stat\<close> also succeeds on \<open>pkg/foo.py\<close>. As in CPython,
  \<open>os.stat\<close> and \<open>os.listdir\<close> raise \<open>ValueError\<close> for a path with an embedded null
  character; \<open>root\<close> is not accessible. In \<open>vanishing_world\<close> all files disappear after
  the second external read.
\<close>

definition regular_file :: stat_result where
  "regular_file = \<lparr>st_mode = 33188, st_size = 6, st_mtime_ns = 1000\<rparr>"

definition directory :: stat_result where
  "directory = \<lparr>st_mode = 16877, st_size = 4096, st_mtime_ns = 1000\<rparr>"

definition demo_fs :: filesystem where
  "demo_fs =
     \<lparr>os_stat = (\<lambda>p.
        if CHR 0x00 \<in> set p then Inl (Exn ValueError ''embedded null byte'')
        else if p = ''pkg/Foo.py'' \<or> p = ''pkg/foo.py'' then Inr regular_file
        else if p = ''pkg'' then Inr directory
        else if p = ''root'' then Inl (Exn PermissionError p)
        else Inl (Exn FileNotFoundError p)),
      os_listdir = (\<lambda>p.
        if CHR 0x00 \<in> set p then Inl (Exn ValueError ''embedded null byte'')
        else if p = ''pkg'' then Inr [''Foo.py'']
        else if p = ''root'' then Inl (Exn PermissionError p)
        else Inl (Exn FileNotFoundError p)),
      util_read_with_python_encoding = (\<lambda>p v.
        if p = ''pkg/Foo.py'' \<or> p = ''pkg/foo.py'' then Inr (''x = 1'', ''5b2d'')
        else Inl (Exn FileNotFoundError p))\<rparr>"

definition emptied_fs :: filesystem where
  "emptied_fs =
     \<lparr>os_stat = (\<lambda>p. Inl (Exn FileNotFoundError p)),
      os_listdir = (\<lambda>p. Inl (Exn FileNotFoundError p)),
      util_read_with_python_encoding = (\<lambda>p v. Inl (Exn FileNotFoundError p))\<rparr>"

definition demo_world :: world where
  "demo_world = \<lparr>timeline = (\<lambda>t. demo_fs), syscalls = []\<rparr>"

definition vanishing_world :: world where
  "vanishing_world = \<lparr>timeline = (\<lambda>t. if t < 2 then demo_fs else emptied_fs), syscalls = []\<rparr>"

text \<open>
  \<open>exclusive c\<close>: no path has both a stored result and a stored error of the same
  operation.
\<close>

definition exclusive :: "FileSystemCache \<Rightarrow> bool" where
  "exclusive c \<longleftrightarrow>
     (\<forall>p. stat_cache c p = None \<or> stat_error_cache c p = None)
   \<and> (\<forall>p. listdir_cache c p = None \<or> listdir_error_cache c p = None)
   \<and> (\<forall>p. read_cache c p = None \<or> read_error_cache c p = None)"

text \<open>
  In \<open>racing_world\<close> all files disappear after the first external read: a directory is
  listed, and its entry is gone when \<open>os.stat\<close> looks at it.
\<close>

definition racing_world :: world where
  "racing_world = \<lparr>timeline = (\<lambda>t. if t < 1 then demo_fs else emptied_fs), syscalls = []\<rparr>"

subsection \<open>Counting external reads\<close>

text \<open>
  \<open>stat_budget w c p\<close> is the number of \<open>os.stat\<close> calls on \<open>p\<close> recorded in \<open>w\<close>, plus
  one while the caches of \<open>c\<close> do not determine \<open>stat\<close> on \<open>p\<close>; \<open>listdir_budget\<close> is
  the same for \<open>os.listdir\<close>. \<open>extends w w'\<close>: the world \<open>w'\<close> has the timeline of \<open>w\<close>
  and its record of external reads continues that of \<open>w\<close>.
\<close>

definition stat_budget :: "world \<Rightarrow> FileSystemCache \<Rightarrow> path \<Rightarrow> nat" where
  "stat_budget w c p =
     count_list (syscalls w) (OsStat p) + (if stat_answer c p = None then 1 else 0)"

definition listdir_budget :: "world \<Rightarrow> FileSystemCache \<Rightarrow> path \<Rightarrow> nat" where
  "listdir_budget w c p =
     count_list (syscalls w) (OsListdir p) + (if listdir_answer c p = None then 1 else 0)"

definition extends :: "world \<Rightarrow> world \<Rightarrow> bool" where
  "extends w w' \<longleftrightarrow> timeline w' = timeline w \<and> (\<exists>new. syscalls w' = syscalls w @ new)"

subsection \<open>Invariants of a transaction\<close>

text \<open>
  A transaction starts when \<open>n\<close> external reads have been recorded.
  \<open>stat_then_read p l\<close>: the record \<open>l\<close> holds a content read of \<open>p\<close> with an \<open>os.stat\<close>
  of \<open>p\<close> somewhere before it. \<open>stat_first n w c\<close>: every stored \<open>stat\<close> result of \<open>c\<close>
  comes from an \<open>os.stat\<close> of the transaction, and every path with a stored text or read
  error has a stored \<open>stat\<close> result and a content read of the transaction that follows an
  \<open>os.stat\<close> of the transaction. \<open>decoded n w c\<close>: every stored text is stored with the
  digest that one call of the decoder, made in the transaction, returned together with it.
\<close>

definition stat_then_read :: "path \<Rightarrow> os_call list \<Rightarrow> bool" where
  "stat_then_read p l \<longleftrightarrow> (\<exists>pre post. l = pre @ OsRead p # post \<and> OsStat p \<in> set pre)"

definition stat_first :: "nat \<Rightarrow> world \<Rightarrow> FileSystemCache \<Rightarrow> bool" where
  "stat_first n w c \<longleftrightarrow>
     n \<le> length (syscalls w)
   \<and> (\<forall>p. stat_cache c p \<noteq> None \<longrightarrow> OsStat p \<in> set (drop n (syscalls w)))
   \<and> (\<forall>p. read_cache c p \<noteq> None \<or> read_error_cache c p \<noteq> None \<longrightarrow>
          stat_cache c p \<noteq> None \<and> stat_then_read p (drop n (syscalls w)))"

definition decoded :: "nat \<Rightarrow> world \<Rightarrow> FileSystemCache \<Rightarrow> bool" where
  "decoded n w c \<longleftrightarrow>
     n \<le> length (syscalls w)
   \<and> (\<forall>p d. read_cache c p = Some d \<longrightarrow>
        (\<exists>h i. hash_cache c p = Some h \<and> n \<le> i \<and> i < length (syscalls w)
           \<and> syscalls w ! i = OsRead p
           \<and> util_read_with_python_encoding (timeline w i) p (pyversion c) = Inr (d, h)))"

text \<open>The calls that may write to the content cache or the fingerprint cache.\<close>

fun touches_content :: "call \<Rightarrow> bool" where
  "touches_content (ReadText p) = True"
| "touches_content (Md5 p) = True"
| "touches_content Flush = True"
| "touches_content _ = False"

section \<open>Auxiliary facts\<close>

lemmas os_defs = call_os_stat_def call_os_listdir_def call_util_read_def
lemmas meta_defs = stat_def u_stat_def listdir_def u_listdir_def
lemmas query_defs = isfile_def isdir_def exists_def isfile_case_def
lemmas answer_defs = stat_answer_def listdir_answer_def read_answer_def md5_answer_def

lemma stat_replay: "stat_answer c p = Some r \<Longrightarrow> stat p (w, c) = (r, (w, c))"
  by (auto simp: stat_answer_def meta_defs split: option.splits)

lemma stat_fixes: "stat p (w, c) = (r, (w', c')) \<Longrightarrow> stat_answer c' p = Some r"
  by (auto simp: stat_answer_def meta_defs os_defs split: option.splits sum.splits prod.splits)

lemma listdir_replay: "listdir_answer c p = Some r \<Longrightarrow> listdir p (w, c) = (r, (w, c))"
  by (auto simp: listdir_answer_def meta_defs split: option.splits)

lemma listdir_fixes: "listdir p (w, c) = (r, (w', c')) \<Longrightarrow> listdir_answer c' p = Some r"
  by (auto simp: listdir_answer_def meta_defs os_defs split: option.splits sum.splits prod.splits)

lemma read_replay: "read_answer c p = Some r \<Longrightarrow> read_with_python_encoding p (w, c) = (r, (w, c))"
  by (auto simp: read_answer_def read_with_python_encoding_def stat_replay split: option.splits sum.splits)

lemma read_fixes:
  "read_with_python_encoding p (w, c) = (r, (w', c')) \<Longrightarrow> read_answer c' p = Some r"
  by (auto simp: read_answer_def read_with_python_encoding_def os_defs meta_defs stat_answer_def
       split: option.splits sum.splits prod.splits)

lemma md5_replay: "md5_answer c p = Some r \<Longrightarrow> md5 p (w, c) = (r, (w, c))"
  by (auto simp: md5_answer_def md5_def read_replay split: option.splits sum.splits)

lemma md5_fixes: "md5 p (w, c) = (r, (w', c')) \<Longrightarrow> md5_answer c' p = Some r"
  by (auto simp: md5_answer_def md5_def read_answer_def read_with_python_encoding_def os_defs meta_defs stat_answer_def
      split: option.splits sum.splits prod.splits if_splits)

lemma stat_cases:
  assumes "stat p (w, c) = (r, (w', c'))"
  obtains (hit) "stat_answer c p = Some r" "w' = w" "c' = c"
  | (ok) x where "stat_cache c p = None" "stat_error_cache c p = None" "r = Inr x"
      "os_stat (now w) p = Inr x" "w' = w\<lparr>syscalls := syscalls w @ [OsStat p]\<rparr>"
      "c' = c\<lparr>stat_cache := (stat_cache c)(p \<mapsto> x)\<rparr>"
  | (err) e where "stat_cache c p = None" "stat_error_cache c p = None" "r = Inl e"
      "os_stat (now w) p = Inl e" "w' = w\<lparr>syscalls := syscalls w @ [OsStat p]\<rparr>"
      "c' = c\<lparr>stat_error_cache := (stat_error_cache c)(p \<mapsto> e)\<rparr>"
  using assms
  by (auto simp: stat_answer_def meta_defs os_defs split: option.splits sum.splits prod.splits)
     (metis+)

lemma listdir_cases:
  assumes "listdir p (w, c) = (r, (w', c'))"
  obtains (hit) "listdir_answer c p = Some r" "w' = w" "c' = c"
  | (ok) x where "listdir_cache c p = None" "listdir_error_cache c p = None" "r = Inr x"
      "os_listdir (now w) p = Inr x" "w' = w\<lparr>syscalls := syscalls w @ [OsListdir p]\<rparr>"
      "c' = c\<lparr>listdir_cache := (listdir_cache c)(p \<mapsto> x)\<rparr>"
  | (err) e where "listdir_cache c p = None" "listdir_error_cache c p = None" "r = Inl e"
      "os_listdir (now w) p = Inl e" "w' = w\<lparr>syscalls := syscalls w @ [OsListdir p]\<rparr>"
      "c' = c\<lparr>listdir_error_cache := (listdir_error_cache c)(p \<mapsto> e)\<rparr>"
  using assms
  by (auto simp: listdir_answer_def meta_defs os_defs split: option.splits sum.splits prod.splits)
     (metis+)

lemma read_cases:
  assumes "read_with_python_encoding p (w, c) = (r, (w', c'))"
  obtains (hit) "read_cache c p \<noteq> None \<or> read_error_cache c p \<noteq> None"
      "read_answer c p = Some r" "w' = w" "c' = c"
  | (stat_failed) e where "read_cache c p = None" "read_error_cache c p = None"
      "r = Inl e" "stat p (w, c) = (Inl e, (w', c'))"
  | (ok) st w1 c1 d h where "read_cache c p = None" "read_error_cache c p = None"
      "stat p (w, c) = (Inr st, (w1, c1))" "r = Inr d"
      "util_read_with_python_encoding (now w1) p (pyversion c1) = Inr (d, h)"
      "w' = w1\<lparr>syscalls := syscalls w1 @ [OsRead p]\<rparr>"
      "c' = c1\<lparr>read_cache := (read_cache c1)(p \<mapsto> d), hash_cache := (hash_cache c1)(p \<mapsto> h)\<rparr>"
  | (err) st w1 c1 e where "read_cache c p = None" "read_error_cache c p = None"
      "stat p (w, c) = (Inr st, (w1, c1))" "r = Inl e"
      "util_read_with_python_encoding (now w1) p (pyversion c1) = Inl e"
      "w' = w1\<lparr>syscalls := syscalls w1 @ [OsRead p]\<rparr>"
      "c' = c1\<lparr>read_error_cache := (read_error_cache c1)(p \<mapsto> e)\<rparr>"
  using assms
  by (auto simp: read_answer_def read_with_python_encoding_def os_defs
      split: option.splits sum.splits prod.splits)

lemma coupledD: "coupled c \<Longrightarrow> (read_cache c p = None) = (hash_cache c p = None)"
  by (auto simp: coupled_def)

lemma keeps_refl: "keeps c c"
  by (simp add: keeps_def)

lemma keeps_trans: "keeps a b \<Longrightarrow> keeps b c \<Longrightarrow> keeps a c"
  by (simp add: keeps_def)

lemma keeps_stat_ok:
  "stat_cache c p = None \<Longrightarrow> stat_error_cache c p = None \<Longrightarrow>
   keeps c (c\<lparr>stat_cache := (stat_cache c)(p \<mapsto> x)\<rparr>)"
  unfolding keeps_def by (intro conjI allI impI; auto simp: answer_defs split: option.splits sum.splits)

lemma keeps_stat_err:
  "stat_cache c p = None \<Longrightarrow> stat_error_cache c p = None \<Longrightarrow>
   keeps c (c\<lparr>stat_error_cache := (stat_error_cache c)(p \<mapsto> e)\<rparr>)"
  unfolding keeps_def by (intro conjI allI impI; auto simp: answer_defs split: option.splits sum.splits)

lemma keeps_listdir_ok:
  "listdir_cache c p = None \<Longrightarrow> listdir_error_cache c p = None \<Longrightarrow>
   keeps c (c\<lparr>listdir_cache := (listdir_cache c)(p \<mapsto> x)\<rparr>)"
  unfolding keeps_def by (intro conjI allI impI; auto simp: answer_defs split: option.splits sum.splits)

lemma keeps_listdir_err:
  "listdir_cache c p = None \<Longrightarrow> listdir_error_cache c p = None \<Longrightarrow>
   keeps c (c\<lparr>listdir_error_cache := (listdir_error_cache c)(p \<mapsto> e)\<rparr>)"
  unfolding keeps_def by (intro conjI allI impI; auto simp: answer_defs split: option.splits sum.splits)

lemma keeps_read_ok:
  "hash_cache c p = None \<Longrightarrow> read_cache c p = None \<Longrightarrow> read_error_cache c p = None \<Longrightarrow> stat_cache c p = Some st \<Longrightarrow>
   keeps c (c\<lparr>read_cache := (read_cache c)(p \<mapsto> d), hash_cache := (hash_cache c)(p \<mapsto> h)\<rparr>)"
  unfolding keeps_def by (intro conjI allI impI; auto simp: answer_defs split: option.splits sum.splits)

lemma keeps_read_err:
  "read_cache c p = None \<Longrightarrow> read_error_cache c p = None \<Longrightarrow> stat_cache c p = Some st \<Longrightarrow>
   keeps c (c\<lparr>read_error_cache := (read_error_cache c)(p \<mapsto> e)\<rparr>)"
  unfolding keeps_def by (intro conjI allI impI; auto simp: answer_defs split: option.splits sum.splits)

lemma stat_keeps: "stat q (w, c) = (r, (w', c')) \<Longrightarrow> keeps c c'"
  by (erule stat_cases) (simp_all add: keeps_refl keeps_stat_ok keeps_stat_err)

lemma listdir_keeps: "listdir q (w, c) = (r, (w', c')) \<Longrightarrow> keeps c c'"
  by (erule listdir_cases) (simp_all add: keeps_refl keeps_listdir_ok keeps_listdir_err)

lemma stat_frame:
  "stat q (w, c) = (r, (w', c')) \<Longrightarrow>
   read_cache c' = read_cache c \<and> read_error_cache c' = read_error_cache c
   \<and> hash_cache c' = hash_cache c \<and> pyversion c' = pyversion c
   \<and> listdir_cache c' = listdir_cache c \<and> listdir_error_cache c' = listdir_error_cache c
   \<and> timeline w' = timeline w"
  by (erule stat_cases) simp_all

lemma stat_Inr_cached: "stat q (w, c) = (Inr st, (w', c')) \<Longrightarrow> stat_cache c' q = Some st"
  by (erule stat_cases) (auto simp: stat_answer_def split: option.splits)

lemma stat_coupled: "stat q (w, c) = (r, (w', c')) \<Longrightarrow> coupled c \<Longrightarrow> coupled c'"
  by (drule stat_frame) (simp add: coupled_def)

lemma listdir_frame:
  "listdir q (w, c) = (r, (w', c')) \<Longrightarrow>
   read_cache c' = read_cache c \<and> read_error_cache c' = read_error_cache c
   \<and> hash_cache c' = hash_cache c \<and> pyversion c' = pyversion c
   \<and> stat_cache c' = stat_cache c \<and> stat_error_cache c' = stat_error_cache c
   \<and> timeline w' = timeline w"
  by (erule listdir_cases) simp_all

lemma listdir_coupled: "listdir q (w, c) = (r, (w', c')) \<Longrightarrow> coupled c \<Longrightarrow> coupled c'"
  by (drule listdir_frame) (simp add: coupled_def)

lemma read_coupled:
  assumes "read_with_python_encoding q (w, c) = (r, (w', c'))" "coupled c"
  shows "coupled c'"
  using assms(1)
proof (cases rule: read_cases)
  case hit
  with assms show ?thesis by simp
next
  case (stat_failed e)
  with assms stat_coupled show ?thesis by blast
next
  case (ok st w1 c1 d h)
  with stat_coupled [OF ok(3) assms(2)] show ?thesis by (simp add: coupled_def)
next
  case (err st w1 c1 e)
  with stat_coupled [OF err(3) assms(2)] show ?thesis by (simp add: coupled_def)
qed

lemma read_keeps:
  assumes "read_with_python_encoding q (w, c) = (r, (w', c'))" "coupled c"
  shows "keeps c c'"
  using assms(1)
proof (cases rule: read_cases)
  case hit
  then show ?thesis by (simp add: keeps_refl)
next
  case (stat_failed e)
  then show ?thesis by (simp add: stat_keeps)
next
  case (ok st w1 c1 d h)
  have "hash_cache c1 q = None" "read_cache c1 q = None" "read_error_cache c1 q = None"
       "stat_cache c1 q = Some st"
    using ok stat_frame [OF ok(3)] stat_Inr_cached [OF ok(3)] coupledD [OF assms(2), of q]
    by simp_all
  then have "keeps c1 c'"
    unfolding ok by (rule keeps_read_ok)
  with stat_keeps [OF ok(3)] show ?thesis by (rule keeps_trans)
next
  case (err st w1 c1 e)
  have "read_cache c1 q = None" "read_error_cache c1 q = None" "stat_cache c1 q = Some st"
    using err stat_frame [OF err(3)] stat_Inr_cached [OF err(3)] by simp_all
  then have "keeps c1 c'"
    unfolding err by (rule keeps_read_err)
  with stat_keeps [OF err(3)] show ?thesis by (rule keeps_trans)
qed

lemma md5_state:
  "md5 q s = (r, s') \<Longrightarrow>
   s' = s \<or> (\<exists>r1. read_with_python_encoding q s = (r1, s'))"
  by (auto simp: md5_def split: if_splits sum.splits option.splits prod.splits)

lemma isfile_state: "isfile q s = (r, s') \<Longrightarrow> \<exists>r1. stat q s = (r1, s')"
  by (auto simp: isfile_def split: if_splits sum.splits prod.splits)

lemma isdir_state: "isdir q s = (r, s') \<Longrightarrow> \<exists>r1. stat q s = (r1, s')"
  by (auto simp: isdir_def split: if_splits sum.splits prod.splits)

lemma exists_state: "exists q s = (r, s') \<Longrightarrow> \<exists>r1. stat q s = (r1, s')"
  by (auto simp: exists_def split: if_splits sum.splits prod.splits)

lemma isfile_case_state:
  "isfile_case q s = (r, s') \<Longrightarrow>
   s' = s \<or> (\<exists>r1. listdir (fst (os_path_split q)) s = (r1, s'))
   \<or> (\<exists>r1 s1 r2. listdir (fst (os_path_split q)) s = (r1, s1) \<and> stat q s1 = (r2, s'))"
  by (auto simp: isfile_case_def dest!: isfile_state split: if_splits sum.splits prod.splits)

text \<open>Every call other than \<open>Flush\<close> is a sequence of at most two of the three primitives.\<close>

lemma exec_state:
  assumes "k \<noteq> Flush" "exec k s = (r, s')"
  shows "s' = s \<or> (\<exists>q r1. stat q s = (r1, s')) \<or> (\<exists>q r1. listdir q s = (r1, s'))
     \<or> (\<exists>q r1. read_with_python_encoding q s = (r1, s'))
     \<or> (\<exists>q r1 s1 q2 r2. listdir q s = (r1, s1) \<and> stat q2 s1 = (r2, s'))"
proof (cases k)
  case (Stat p) with assms show ?thesis by (auto simp: lift_def) (metis prod.collapse)
next
  case (Listdir p) with assms show ?thesis by (auto simp: lift_def) (metis prod.collapse)
next
  case (Isfile p) with assms isfile_state [of p s] show ?thesis by (auto simp: lift_def) (metis prod.collapse)
next
  case (IsfileCase p) with assms isfile_case_state [of p s] show ?thesis
    by (auto simp: lift_def) (metis prod.collapse)+
next
  case (Isdir p) with assms isdir_state [of p s] show ?thesis by (auto simp: lift_def) (metis prod.collapse)
next
  case (Exists p) with assms exists_state [of p s] show ?thesis by (auto simp: lift_def) (metis prod.collapse)
next
  case (ReadText p) with assms show ?thesis by (auto simp: lift_def) (metis prod.collapse)
next
  case (Md5 p) with assms md5_state [of p s] show ?thesis by (auto simp: lift_def) (metis prod.collapse)+
next
  case Flush with assms show ?thesis by simp
qed


lemma flush_coupled: "coupled (flush c)"
  by (simp add: coupled_def flush_def meta_flush_def)

lemma init_coupled: "coupled (FileSystemCache_init v)"
  by (simp add: FileSystemCache_init_def flush_coupled)

lemma exec_coupled:
  assumes "exec k (w, c) = (r, (w', c'))" "coupled c"
  shows "coupled c'"
proof (cases "k = Flush")
  case True
  with assms show ?thesis by (auto simp: flush_coupled)
next
  case False
  from exec_state [OF False assms(1)] show ?thesis
    using assms(2) by (auto dest: stat_coupled listdir_coupled read_coupled)
qed

lemma exec_keeps:
  assumes "k \<noteq> Flush" "exec k (w, c) = (r, (w', c'))" "coupled c"
  shows "keeps c c'"
  using exec_state [OF assms(1,2)] assms(3)
  by (auto simp: keeps_refl dest: stat_keeps listdir_keeps read_keeps intro: keeps_trans)

lemma run_coupled: "run ks (w, c) = (rs, (w', c')) \<Longrightarrow> coupled c \<Longrightarrow> coupled c'"
proof (induction ks arbitrary: w c rs)
  case Nil
  then show ?case by simp
next
  case (Cons k ks)
  obtain r w1 c1 where e: "exec k (w, c) = (r, (w1, c1))"
    by (metis prod.exhaust)
  obtain rs1 where t: "run ks (w1, c1) = (rs1, (w', c'))"
    using Cons.prems(1) e by (auto split: prod.splits)
  show ?case
    using Cons.IH [OF t] exec_coupled [OF e Cons.prems(2)] by simp
qed

lemma run_keeps:
  "Flush \<notin> set ks \<Longrightarrow> run ks (w, c) = (rs, (w', c')) \<Longrightarrow> coupled c \<Longrightarrow> keeps c c'"
proof (induction ks arbitrary: w c rs)
  case Nil
  then show ?case by (simp add: keeps_refl)
next
  case (Cons k ks)
  obtain r w1 c1 where e: "exec k (w, c) = (r, (w1, c1))"
    by (metis prod.exhaust)
  obtain rs1 where t: "run ks (w1, c1) = (rs1, (w', c'))"
    using Cons.prems(2) e by (auto split: prod.splits)
  from Cons.prems(1) have nf: "k \<noteq> Flush" "Flush \<notin> set ks" by auto
  have "keeps c c1" using exec_keeps [OF nf(1) e Cons.prems(3)] .
  moreover have "keeps c1 c'"
    using Cons.IH [OF nf(2) t] exec_coupled [OF e Cons.prems(3)] by simp
  ultimately show ?case by (rule keeps_trans)
qed

lemmas demo_defs = demo_world_def vanishing_world_def demo_fs_def emptied_fs_def
  regular_file_def directory_def FileSystemCache_init_def flush_def meta_flush_def now_def
lemmas all_defs = meta_defs os_defs query_defs read_with_python_encoding_def md5_def lift_def

lemma run_pyversion: "pyversion (snd (snd (run ks (w, c)))) = pyversion c"
proof (induction ks arbitrary: w c)
  case Nil
  then show ?case by simp
next
  case (Cons k ks)
  obtain r w1 c1 where e: "exec k (w, c) = (r, (w1, c1))"
    by (metis prod.exhaust)
  have "pyversion c1 = pyversion c"
  proof (cases "k = Flush")
    case True
    with e show ?thesis by (auto simp: flush_def meta_flush_def)
  next
    case False
    from exec_state [OF False e] show ?thesis
      by (auto dest!: stat_frame listdir_frame elim!: read_cases)
  qed
  with Cons.IH [of w1 c1] e show ?case by (auto split: prod.splits)
qed

lemma flush_is_init: "flush c = FileSystemCache_init (pyversion c)"
  by (simp add: FileSystemCache_init_def flush_def meta_flush_def)

lemma demo_first:
  "exec (Md5 ''pkg/Foo.py'') (vanishing_world, FileSystemCache_init (3, 8)) =
     (Inr (VStr ''5b2d''),
      (vanishing_world\<lparr>syscalls := [OsStat ''pkg/Foo.py'', OsRead ''pkg/Foo.py'']\<rparr>,
       (FileSystemCache_init (3, 8))\<lparr>stat_cache := [''pkg/Foo.py'' \<mapsto> regular_file],
          read_cache := [''pkg/Foo.py'' \<mapsto> ''x = 1''], hash_cache := [''pkg/Foo.py'' \<mapsto> ''5b2d'']\<rparr>))"
  by (simp add: all_defs demo_defs)

lemma stat_exclusive: "stat q (w, c) = (r, (w', c')) \<Longrightarrow> exclusive c \<Longrightarrow> exclusive c'"
  by (erule stat_cases) (auto simp: exclusive_def)

lemma listdir_exclusive: "listdir q (w, c) = (r, (w', c')) \<Longrightarrow> exclusive c \<Longrightarrow> exclusive c'"
  by (erule listdir_cases) (auto simp: exclusive_def)

lemma read_exclusive:
  assumes "read_with_python_encoding q (w, c) = (r, (w', c'))" "exclusive c"
  shows "exclusive c'"
  using assms(1)
proof (cases rule: read_cases)
  case hit
  with assms show ?thesis by simp
next
  case (stat_failed e)
  with assms stat_exclusive show ?thesis by blast
next
  case (ok st w1 c1 d h)
  with stat_exclusive [OF ok(3) assms(2)] stat_frame [OF ok(3)] show ?thesis
    by (auto simp: exclusive_def)
next
  case (err st w1 c1 e)
  with stat_exclusive [OF err(3) assms(2)] stat_frame [OF err(3)] show ?thesis
    by (auto simp: exclusive_def)
qed

lemma flush_exclusive: "exclusive (flush c)"
  by (simp add: exclusive_def flush_def meta_flush_def)

lemma exec_exclusive:
  assumes "exec k (w, c) = (r, (w', c'))" "exclusive c"
  shows "exclusive c'"
proof (cases "k = Flush")
  case True
  with assms show ?thesis by (auto simp: flush_exclusive)
next
  case False
  from exec_state [OF False assms(1)] show ?thesis
    using assms(2) by (auto dest: stat_exclusive listdir_exclusive read_exclusive)
qed

lemma run_exclusive: "run ks (w, c) = (rs, (w', c')) \<Longrightarrow> exclusive c \<Longrightarrow> exclusive c'"
proof (induction ks arbitrary: w c rs)
  case Nil
  then show ?case by simp
next
  case (Cons k ks)
  obtain r w1 c1 where e: "exec k (w, c) = (r, (w1, c1))"
    by (metis prod.exhaust)
  obtain rs1 where t: "run ks (w1, c1) = (rs1, (w', c'))"
    using Cons.prems(1) e by (auto split: prod.splits)
  show ?case
    using Cons.IH [OF t] exec_exclusive [OF e Cons.prems(2)] by simp
qed

lemma exec_exclusive': "exclusive c \<Longrightarrow> exclusive (snd (snd (exec k (w, c))))"
  using exec_exclusive [of k w c "fst (exec k (w, c))" "fst (snd (exec k (w, c)))"
      "snd (snd (exec k (w, c)))"] by simp

lemma run_exclusive': "exclusive c \<Longrightarrow> exclusive (snd (snd (run ks (w, c))))"
  using run_exclusive [of ks w c "fst (run ks (w, c))" "fst (snd (run ks (w, c)))"
      "snd (snd (run ks (w, c)))"] by simp

lemma init_exclusive: "exclusive (FileSystemCache_init v)"
  by (simp add: FileSystemCache_init_def flush_exclusive)

lemma exec_coupled': "coupled c \<Longrightarrow> coupled (snd (snd (exec k (w, c))))"
  using exec_coupled [of k w c "fst (exec k (w, c))" "fst (snd (exec k (w, c)))"
      "snd (snd (exec k (w, c)))"] by simp

lemma run_coupled': "coupled c \<Longrightarrow> coupled (snd (snd (run ks (w, c))))"
  using run_coupled [of ks w c "fst (run ks (w, c))" "fst (snd (run ks (w, c)))"
      "snd (snd (run ks (w, c)))"] by simp

lemma cached_fingerprint_served:
  assumes "coupled c" "hash_cache c p \<noteq> None"
  shows "md5 p (w, c) = (Inr (the (hash_cache c p)), (w, c))"
    and "read_with_python_encoding p (w, c) = (Inr (the (read_cache c p)), (w, c))"
proof -
  from assms obtain h where h: "hash_cache c p = Some h" by auto
  with coupledD [OF assms(1), of p] obtain d where d: "read_cache c p = Some d" by auto
  show "md5 p (w, c) = (Inr (the (hash_cache c p)), (w, c))"
    by (simp add: md5_def h)
  show "read_with_python_encoding p (w, c) = (Inr (the (read_cache c p)), (w, c))"
    by (simp add: read_with_python_encoding_def d)
qed

lemma isfile_result:
  "fst (isfile p s) =
     (case fst (stat p s) of
        Inl e \<Rightarrow> if isinstance_OSError e then Inr False else Inl e
      | Inr st \<Rightarrow> Inr (S_ISREG (st_mode st)))"
  by (simp add: isfile_def split: prod.splits sum.splits)

lemma isdir_result:
  "fst (isdir p s) =
     (case fst (stat p s) of
        Inl e \<Rightarrow> if isinstance_OSError e then Inr False else Inl e
      | Inr st \<Rightarrow> Inr (S_ISDIR (st_mode st)))"
  by (simp add: isdir_def split: prod.splits sum.splits)

lemma exists_result:
  "fst (exists p s) =
     (case fst (stat p s) of
        Inl e \<Rightarrow> if isinstance_FileNotFoundError e then Inr False else Inl e
      | Inr st \<Rightarrow> Inr True)"
  by (simp add: exists_def split: prod.splits sum.splits)

lemma isfile_never_OSError: "isfile p s = (Inl e, s') \<Longrightarrow> \<not> isinstance_OSError e"
  by (auto simp: isfile_def split: prod.splits sum.splits if_splits)

lemma isfile_case_result:
  "fst (isfile_case p s) =
     (if snd (os_path_split p) = [] then Inr False
      else
        (case listdir (fst (os_path_split p)) s of
           (Inl e, s1) \<Rightarrow> if isinstance_OSError e then Inr False else Inl e
         | (Inr names, s1) \<Rightarrow>
             if snd (os_path_split p) \<in> set names then fst (isfile p s1) else Inr False))"
  by (auto simp: isfile_case_def dest: isfile_never_OSError split: prod.splits sum.splits)

lemma stat_fresh:
  "stat_answer c p = None \<Longrightarrow> fst (stat p (w, c)) = os_stat (now w) p"
  by (auto simp: stat_answer_def meta_defs os_defs split: option.splits sum.splits prod.splits)

lemma split_demo:
  "os_path_split ''pkg/Foo.py'' = (''pkg'', ''Foo.py'')"
  "os_path_split ''pkg/foo.py'' = (''pkg'', ''foo.py'')"
  "os_path_split ''pkg/missing.py'' = (''pkg'', ''missing.py'')"
  "os_path_split ''pkg/'' = (''pkg'', [])"
  "os_path_split [] = ([], [])"
  "os_path_split ''root/x.py'' = (''root'', ''x.py'')"
  "os_path_split [CHR 0x00, CHR ''/'', CHR ''a''] = ([CHR 0x00], ''a'')"
  by (simp_all add: os_path_split_def rstrip_sep_def Let_def)

lemma demo_isfile_case:
  "fst (isfile_case ''pkg/Foo.py'' (demo_world, FileSystemCache_init (3, 8))) = Inr True"
  "fst (isfile_case ''pkg/foo.py'' (demo_world, FileSystemCache_init (3, 8))) = Inr False"
  "fst (isfile_case ''pkg/missing.py'' (demo_world, FileSystemCache_init (3, 8))) = Inr False"
  "fst (isfile_case ''pkg/'' (demo_world, FileSystemCache_init (3, 8))) = Inr False"
  "fst (isfile_case [] (demo_world, FileSystemCache_init (3, 8))) = Inr False"
  "fst (isfile_case ''root/x.py'' (demo_world, FileSystemCache_init (3, 8))) = Inr False"
  by (simp_all add: isfile_case_def split_demo isfile_def meta_defs os_defs demo_defs
      isinstance_OSError_def S_ISREG_def S_IFMT_def)

lemma demo_null_byte:
  "fst (isfile [CHR 0x00] (demo_world, FileSystemCache_init (3, 8)))
     = Inl (Exn ValueError ''embedded null byte'')"
  "fst (isdir [CHR 0x00] (demo_world, FileSystemCache_init (3, 8)))
     = Inl (Exn ValueError ''embedded null byte'')"
  "fst (isfile_case [CHR 0x00, CHR ''/'', CHR ''a''] (demo_world, FileSystemCache_init (3, 8)))
     = Inl (Exn ValueError ''embedded null byte'')"
  by (simp_all add: isfile_case_def split_demo isfile_def isdir_def meta_defs os_defs demo_defs
      isinstance_OSError_def)

lemma stat_world:
  "stat q (w, c) = (r, (w', c')) \<Longrightarrow>
   timeline w' = timeline w
   \<and> (syscalls w' = syscalls w \<and> c' = c \<and> stat_answer c q \<noteq> None
      \<or> syscalls w' = syscalls w @ [OsStat q] \<and> stat_answer c q = None)"
  by (erule stat_cases) (simp_all add: stat_answer_def)

lemma listdir_world:
  "listdir q (w, c) = (r, (w', c')) \<Longrightarrow>
   timeline w' = timeline w
   \<and> (syscalls w' = syscalls w \<and> c' = c \<and> listdir_answer c q \<noteq> None
      \<or> syscalls w' = syscalls w @ [OsListdir q] \<and> listdir_answer c q = None)"
  by (erule listdir_cases) (simp_all add: listdir_answer_def)

lemma stat_meta_answers:
  "stat q (w, c) = (r, (w', c')) \<Longrightarrow>
   (stat_answer c p \<noteq> None \<longrightarrow> stat_answer c' p = stat_answer c p)
   \<and> (p \<noteq> q \<longrightarrow> stat_answer c' p = stat_answer c p)
   \<and> listdir_answer c' p = listdir_answer c p"
  by (erule stat_cases) (auto simp: stat_answer_def listdir_answer_def split: option.splits)

lemma listdir_meta_answers:
  "listdir q (w, c) = (r, (w', c')) \<Longrightarrow>
   (listdir_answer c p \<noteq> None \<longrightarrow> listdir_answer c' p = listdir_answer c p)
   \<and> (p \<noteq> q \<longrightarrow> listdir_answer c' p = listdir_answer c p)
   \<and> stat_answer c' p = stat_answer c p"
  by (erule listdir_cases) (auto simp: stat_answer_def listdir_answer_def split: option.splits)

lemma exec_cases:
  assumes "k \<noteq> Flush" "exec k (w, c) = (r, (w', c'))"
  obtains (same) "w' = w" "c' = c"
  | (stat) q r1 where "stat q (w, c) = (r1, (w', c'))"
  | (listdir) q r1 where "listdir q (w, c) = (r1, (w', c'))"
  | (read) q r1 where "read_with_python_encoding q (w, c) = (r1, (w', c'))"
  | (listdir_stat) q r1 w1 c1 q2 r2 where
      "listdir q (w, c) = (r1, (w1, c1))" "stat q2 (w1, c1) = (r2, (w', c'))"
proof -
  from exec_state [OF assms] show thesis
  proof (elim disjE exE conjE)
    assume "(w', c') = (w, c)"
    then show thesis using same by simp
  next
    fix q r1 assume "stat q (w, c) = (r1, (w', c'))"
    then show thesis by (rule stat)
  next
    fix q r1 assume "listdir q (w, c) = (r1, (w', c'))"
    then show thesis by (rule listdir)
  next
    fix q r1 assume "read_with_python_encoding q (w, c) = (r1, (w', c'))"
    then show thesis by (rule read)
  next
    fix q r1 s1 q2 r2
    assume a: "listdir q (w, c) = (r1, s1)" "stat q2 s1 = (r2, (w', c'))"
    obtain w1 c1 where "s1 = (w1, c1)" by (cases s1)
    with a show thesis using listdir_stat by simp
  qed
qed

lemma run_Cons_cases:
  assumes "run (k # ks) (w, c) = (rs, (w', c'))"
  obtains r w1 c1 rs1 where "exec k (w, c) = (r, (w1, c1))" "run ks (w1, c1) = (rs1, (w', c'))"
  using assms by (auto split: prod.splits)

text \<open>The budgets never grow in a call other than \<open>flush\<close>.\<close>

lemma stat_budgets:
  assumes "stat q (w, c) = (r, (w', c'))"
  shows "stat_budget w' c' p \<le> stat_budget w c p"
    and "listdir_budget w' c' p \<le> listdir_budget w c p"
  using stat_world [OF assms] stat_meta_answers [OF assms, of p] stat_fixes [OF assms]
  by (auto simp: stat_budget_def listdir_budget_def split: if_splits)

lemma listdir_budgets:
  assumes "listdir q (w, c) = (r, (w', c'))"
  shows "stat_budget w' c' p \<le> stat_budget w c p"
    and "listdir_budget w' c' p \<le> listdir_budget w c p"
  using listdir_world [OF assms] listdir_meta_answers [OF assms, of p] listdir_fixes [OF assms]
  by (auto simp: stat_budget_def listdir_budget_def split: if_splits)

lemma stat_answer_frame:
  "stat_cache c' = stat_cache c \<Longrightarrow> stat_error_cache c' = stat_error_cache c \<Longrightarrow>
   stat_answer c' = stat_answer c"
  by (auto simp: fun_eq_iff stat_answer_def split: option.splits)

lemma listdir_answer_frame:
  "listdir_cache c' = listdir_cache c \<Longrightarrow> listdir_error_cache c' = listdir_error_cache c \<Longrightarrow>
   listdir_answer c' = listdir_answer c"
  by (auto simp: fun_eq_iff listdir_answer_def split: option.splits)

lemma read_after_stat:
  assumes "read_with_python_encoding q (w, c) = (r, (w', c'))"
  obtains (same) "w' = w" "c' = c"
  | (stat) r1 where "stat q (w, c) = (r1, (w', c'))"
  | (stat_read) st w1 c1 where "stat q (w, c) = (Inr st, (w1, c1))"
      "read_cache c q = None" "read_error_cache c q = None"
      "w' = w1\<lparr>syscalls := syscalls w1 @ [OsRead q]\<rparr>"
      "stat_answer c' = stat_answer c1" "listdir_answer c' = listdir_answer c1"
  using assms
proof (cases rule: read_cases)
  case hit
  then show ?thesis using same by simp
next
  case (stat_failed e)
  then show ?thesis using stat by simp
next
  case (ok st w1 c1 d h)
  have a: "stat_answer c' = stat_answer c1"
    by (rule stat_answer_frame) (simp_all add: ok(7))
  have b: "listdir_answer c' = listdir_answer c1"
    by (rule listdir_answer_frame) (simp_all add: ok(7))
  show ?thesis by (rule stat_read [OF ok(3) ok(1) ok(2) ok(6) a b])
next
  case (err st w1 c1 e)
  have a: "stat_answer c' = stat_answer c1"
    by (rule stat_answer_frame) (simp_all add: err(7))
  have b: "listdir_answer c' = listdir_answer c1"
    by (rule listdir_answer_frame) (simp_all add: err(7))
  show ?thesis by (rule stat_read [OF err(3) err(1) err(2) err(6) a b])
qed

lemma read_budgets:
  assumes "read_with_python_encoding q (w, c) = (r, (w', c'))"
  shows "stat_budget w' c' p \<le> stat_budget w c p \<and> listdir_budget w' c' p \<le> listdir_budget w c p"
  using assms
proof (cases rule: read_after_stat)
  case same
  then show ?thesis by simp
next
  case (stat r1)
  from stat_budgets [OF this, of p] show ?thesis by simp
next
  case (stat_read st w1 c1)
  have "stat_budget w' c' p = stat_budget w1 c1 p" "listdir_budget w' c' p = listdir_budget w1 c1 p"
    using stat_read(4,5,6) by (simp_all add: stat_budget_def listdir_budget_def)
  with stat_budgets [OF stat_read(1), of p] show ?thesis by simp
qed

lemma exec_budgets:
  assumes "k \<noteq> Flush" "exec k (w, c) = (r, (w', c'))"
  shows "stat_budget w' c' p \<le> stat_budget w c p \<and> listdir_budget w' c' p \<le> listdir_budget w c p"
  using assms
proof (cases rule: exec_cases)
  case same
  then show ?thesis by simp
next
  case (stat q r1)
  from stat_budgets [OF this, of p] show ?thesis by simp
next
  case (listdir q r1)
  from listdir_budgets [OF this, of p] show ?thesis by simp
next
  case (read q r1)
  from read_budgets [OF this, of p] show ?thesis .
next
  case (listdir_stat q r1 w1 c1 q2 r2)
  from listdir_budgets [OF listdir_stat(1), of p] stat_budgets [OF listdir_stat(2), of p]
  show ?thesis by linarith
qed

lemma run_budgets:
  "Flush \<notin> set ks \<Longrightarrow> run ks (w, c) = (rs, (w', c')) \<Longrightarrow>
   stat_budget w' c' p \<le> stat_budget w c p \<and> listdir_budget w' c' p \<le> listdir_budget w c p"
proof (induction ks arbitrary: w c rs)
  case Nil
  then show ?case by simp
next
  case (Cons k ks)
  from Cons.prems(2) obtain r w1 c1 rs1
    where e: "exec k (w, c) = (r, (w1, c1))" and t: "run ks (w1, c1) = (rs1, (w', c'))"
    by (rule run_Cons_cases)
  from Cons.prems(1) have nf: "k \<noteq> Flush" "Flush \<notin> set ks" by auto
  from exec_budgets [OF nf(1) e, of p] Cons.IH [OF nf(2) t] show ?case
    by linarith
qed

lemma exec_meta_answers:
  assumes "k \<noteq> Flush" "exec k (w, c) = (r, (w', c'))"
  shows "(stat_answer c p \<noteq> None \<longrightarrow> stat_answer c' p = stat_answer c p)
       \<and> (listdir_answer c p \<noteq> None \<longrightarrow> listdir_answer c' p = listdir_answer c p)"
  using assms
proof (cases rule: exec_cases)
  case same
  then show ?thesis by simp
next
  case (stat q r1)
  from stat_meta_answers [OF this, of p] show ?thesis by simp
next
  case (listdir q r1)
  from listdir_meta_answers [OF this, of p] show ?thesis by simp
next
  case (read q r1)
  then show ?thesis
  proof (cases rule: read_after_stat)
    case same
    then show ?thesis by simp
  next
    case (stat r1)
    from stat_meta_answers [OF this, of p] show ?thesis by simp
  next
    case (stat_read st w1 c1)
    from stat_meta_answers [OF stat_read(1), of p] stat_read(5,6) show ?thesis by simp
  qed
next
  case (listdir_stat q r1 w1 c1 q2 r2)
  from listdir_meta_answers [OF listdir_stat(1), of p] stat_meta_answers [OF listdir_stat(2), of p]
  show ?thesis by simp
qed

lemma run_meta_answers:
  "Flush \<notin> set ks \<Longrightarrow> run ks (w, c) = (rs, (w', c')) \<Longrightarrow>
   (stat_answer c p \<noteq> None \<longrightarrow> stat_answer c' p = stat_answer c p)
   \<and> (listdir_answer c p \<noteq> None \<longrightarrow> listdir_answer c' p = listdir_answer c p)"
proof (induction ks arbitrary: w c rs)
  case Nil
  then show ?case by simp
next
  case (Cons k ks)
  from Cons.prems(2) obtain r w1 c1 rs1
    where e: "exec k (w, c) = (r, (w1, c1))" and t: "run ks (w1, c1) = (rs1, (w', c'))"
    by (rule run_Cons_cases)
  from Cons.prems(1) have nf: "k \<noteq> Flush" "Flush \<notin> set ks" by auto
  from exec_meta_answers [OF nf(1) e, of p] Cons.IH [OF nf(2) t] show ?case
    by simp
qed

lemma extends_refl: "extends w w"
  by (simp add: extends_def)

lemma extends_trans: "extends a b \<Longrightarrow> extends b c \<Longrightarrow> extends a c"
  by (auto simp: extends_def)

lemma extends_snoc: "extends w w1 \<Longrightarrow> extends w (w1\<lparr>syscalls := syscalls w1 @ [x]\<rparr>)"
  by (auto simp: extends_def)

lemma stat_extends: "stat q (w, c) = (r, (w', c')) \<Longrightarrow> extends w w'"
  by (drule stat_world) (auto simp: extends_def)

lemma listdir_extends: "listdir q (w, c) = (r, (w', c')) \<Longrightarrow> extends w w'"
  by (drule listdir_world) (auto simp: extends_def)

lemma read_extends:
  assumes "read_with_python_encoding q (w, c) = (r, (w', c'))"
  shows "extends w w'"
  using assms
proof (cases rule: read_after_stat)
  case same
  then show ?thesis by (simp add: extends_refl)
next
  case (stat r1)
  then show ?thesis by (rule stat_extends)
next
  case (stat_read st w1 c1)
  from stat_extends [OF stat_read(1)] show ?thesis
    unfolding stat_read(4) by (rule extends_snoc)
qed

lemma exec_extends:
  assumes "exec k (w, c) = (r, (w', c'))"
  shows "extends w w'"
proof (cases "k = Flush")
  case True
  with assms show ?thesis by (auto simp: extends_refl)
next
  case False
  from False assms show ?thesis
  proof (cases rule: exec_cases)
    case same
    then show ?thesis by (simp add: extends_refl)
  next
    case (stat q r1)
    then show ?thesis by (rule stat_extends)
  next
    case (listdir q r1)
    then show ?thesis by (rule listdir_extends)
  next
    case (read q r1)
    then show ?thesis by (rule read_extends)
  next
    case (listdir_stat q r1 w1 c1 q2 r2)
    from listdir_extends [OF listdir_stat(1)] stat_extends [OF listdir_stat(2)]
    show ?thesis by (rule extends_trans)
  qed
qed

lemma run_extends: "run ks (w, c) = (rs, (w', c')) \<Longrightarrow> extends w w'"
proof (induction ks arbitrary: w c rs)
  case Nil
  then show ?case by (simp add: extends_refl)
next
  case (Cons k ks)
  from Cons.prems obtain r w1 c1 rs1
    where e: "exec k (w, c) = (r, (w1, c1))" and t: "run ks (w1, c1) = (rs1, (w', c'))"
    by (rule run_Cons_cases)
  from exec_extends [OF e] Cons.IH [OF t] show ?case by (rule extends_trans)
qed

lemma extends_count: "extends w w' \<Longrightarrow> count_list (syscalls w) x \<le> count_list (syscalls w') x"
  by (auto simp: extends_def)

lemma stat_then_read_append: "stat_then_read p l \<Longrightarrow> stat_then_read p (l @ m)"
  unfolding stat_then_read_def by (metis append_Cons append_assoc)

lemma stat_then_read_snoc: "OsStat p \<in> set l \<Longrightarrow> stat_then_read p (l @ [OsRead p])"
  unfolding stat_then_read_def by blast

lemma stat_first_snoc_other:
  assumes "stat_first n w c"
  shows "stat_first n (w\<lparr>syscalls := syscalls w @ [x]\<rparr>) c"
  using assms by (auto simp: stat_first_def intro: stat_then_read_append)

lemma stat_first_stat_ok:
  assumes "stat_first n w c"
  shows "stat_first n (w\<lparr>syscalls := syscalls w @ [OsStat q]\<rparr>)
           (c\<lparr>stat_cache := (stat_cache c)(q \<mapsto> x)\<rparr>)"
  using assms by (auto simp: stat_first_def intro: stat_then_read_append)

lemma stat_first_meta_upd:
  assumes "stat_first n w c"
  shows "stat_first n w (c\<lparr>stat_error_cache := a\<rparr>)"
    "stat_first n w (c\<lparr>listdir_error_cache := b\<rparr>)"
    "stat_first n w (c\<lparr>listdir_cache := d\<rparr>)"
  using assms by (auto simp: stat_first_def)

lemma stat_stat_first:
  "stat q (w, c) = (r, (w', c')) \<Longrightarrow> stat_first n w c \<Longrightarrow> stat_first n w' c'"
  by (erule stat_cases)
     (simp_all add: stat_first_stat_ok stat_first_snoc_other stat_first_meta_upd)

lemma listdir_stat_first:
  "listdir q (w, c) = (r, (w', c')) \<Longrightarrow> stat_first n w c \<Longrightarrow> stat_first n w' c'"
  by (erule listdir_cases)
     (simp_all add: stat_first_snoc_other stat_first_meta_upd)

lemma stat_first_read_upd:
  assumes "stat_first n w c" "stat_cache c q \<noteq> None"
  shows "stat_first n (w\<lparr>syscalls := syscalls w @ [OsRead q]\<rparr>)
           (c\<lparr>read_cache := (read_cache c)(q \<mapsto> d), hash_cache := hc\<rparr>)"
    and "stat_first n (w\<lparr>syscalls := syscalls w @ [OsRead q]\<rparr>)
           (c\<lparr>read_error_cache := (read_error_cache c)(q \<mapsto> e)\<rparr>)"
  using assms
  by (auto simp: stat_first_def intro: stat_then_read_append stat_then_read_snoc)

lemma read_stat_first:
  assumes "read_with_python_encoding q (w, c) = (r, (w', c'))" "stat_first n w c"
  shows "stat_first n w' c'"
  using assms(1)
proof (cases rule: read_cases)
  case hit
  with assms(2) show ?thesis by simp
next
  case (stat_failed e)
  from stat_stat_first [OF stat_failed(4) assms(2)] show ?thesis .
next
  case (ok st w1 c1 d h)
  from stat_stat_first [OF ok(3) assms(2)] stat_Inr_cached [OF ok(3)]
  show ?thesis unfolding ok(6,7) by (intro stat_first_read_upd) simp_all
next
  case (err st w1 c1 e)
  from stat_stat_first [OF err(3) assms(2)] stat_Inr_cached [OF err(3)]
  show ?thesis unfolding err(6,7) by (intro stat_first_read_upd) simp_all
qed

lemma exec_stat_first:
  assumes "k \<noteq> Flush" "exec k (w, c) = (r, (w', c'))" "stat_first n w c"
  shows "stat_first n w' c'"
  using assms(1,2)
proof (cases rule: exec_cases)
  case same
  with assms(3) show ?thesis by simp
next
  case (stat q r1)
  from stat_stat_first [OF this assms(3)] show ?thesis .
next
  case (listdir q r1)
  from listdir_stat_first [OF this assms(3)] show ?thesis .
next
  case (read q r1)
  from read_stat_first [OF this assms(3)] show ?thesis .
next
  case (listdir_stat q r1 w1 c1 q2 r2)
  from stat_stat_first [OF listdir_stat(2) listdir_stat_first [OF listdir_stat(1) assms(3)]]
  show ?thesis .
qed

lemma run_stat_first:
  "Flush \<notin> set ks \<Longrightarrow> run ks (w, c) = (rs, (w', c')) \<Longrightarrow> stat_first n w c \<Longrightarrow>
   stat_first n w' c'"
proof (induction ks arbitrary: w c rs)
  case Nil
  then show ?case by simp
next
  case (Cons k ks)
  from Cons.prems(2) obtain r w1 c1 rs1
    where e: "exec k (w, c) = (r, (w1, c1))" and t: "run ks (w1, c1) = (rs1, (w', c'))"
    by (rule run_Cons_cases)
  from Cons.prems(1) have nf: "k \<noteq> Flush" "Flush \<notin> set ks" by auto
  from Cons.IH [OF nf(2) t exec_stat_first [OF nf(1) e Cons.prems(3)]] show ?case .
qed

lemma flush_stat_first: "stat_first (length (syscalls w)) w (flush c)"
  by (simp add: stat_first_def flush_def meta_flush_def)

lemma read_Inr_cached:
  "read_with_python_encoding p (w, c) = (Inr d, (w', c')) \<Longrightarrow> read_cache c' p = Some d"
  by (drule read_fixes) (auto simp: read_answer_def split: option.splits sum.splits)

lemma stat_Inl_uncached: "stat p (w, c) = (Inl e, (w', c')) \<Longrightarrow> stat_cache c p = None"
  by (cases "stat_cache c p") (simp_all add: stat_def)

lemma decoded_frame:
  assumes "decoded n w c" "extends w w'" "read_cache c' = read_cache c"
    "hash_cache c' = hash_cache c" "pyversion c' = pyversion c"
  shows "decoded n w' c'"
proof -
  from assms(2) obtain new where t: "timeline w' = timeline w"
    and l: "syscalls w' = syscalls w @ new"
    by (auto simp: extends_def)
  show ?thesis
    unfolding decoded_def
  proof (intro conjI allI impI)
    from assms(1) l show "n \<le> length (syscalls w')" by (simp add: decoded_def)
  next
    fix p d assume "read_cache c' p = Some d"
    with assms(1,3) obtain h i where hi: "hash_cache c p = Some h" "n \<le> i"
      "i < length (syscalls w)" "syscalls w ! i = OsRead p"
      "util_read_with_python_encoding (timeline w i) p (pyversion c) = Inr (d, h)"
      unfolding decoded_def by fastforce
    then have "hash_cache c' p = Some h \<and> n \<le> i \<and> i < length (syscalls w')
         \<and> syscalls w' ! i = OsRead p
         \<and> util_read_with_python_encoding (timeline w' i) p (pyversion c') = Inr (d, h)"
      using assms(4,5) t l by (simp add: nth_append)
    then show "\<exists>h i. hash_cache c' p = Some h \<and> n \<le> i \<and> i < length (syscalls w')
         \<and> syscalls w' ! i = OsRead p
         \<and> util_read_with_python_encoding (timeline w' i) p (pyversion c') = Inr (d, h)"
      by blast
  qed
qed

lemma stat_decoded:
  "stat q (w, c) = (r, (w', c')) \<Longrightarrow> decoded n w c \<Longrightarrow> decoded n w' c'"
  using decoded_frame [of n w c w' c'] stat_extends [of q w c r w' c'] stat_frame [of q w c r w' c']
  by simp

lemma listdir_decoded:
  "listdir q (w, c) = (r, (w', c')) \<Longrightarrow> decoded n w c \<Longrightarrow> decoded n w' c'"
  using decoded_frame [of n w c w' c'] listdir_extends [of q w c r w' c']
    listdir_frame [of q w c r w' c']
  by simp

lemma decoded_read_ok:
  assumes "decoded n w c"
    "util_read_with_python_encoding (now w) q (pyversion c) = Inr (d, h)"
  shows "decoded n (w\<lparr>syscalls := syscalls w @ [OsRead q]\<rparr>)
           (c\<lparr>read_cache := (read_cache c)(q \<mapsto> d), hash_cache := (hash_cache c)(q \<mapsto> h)\<rparr>)"
  unfolding decoded_def
proof (intro conjI allI impI)
  let ?w = "w\<lparr>syscalls := syscalls w @ [OsRead q]\<rparr>"
  let ?c = "c\<lparr>read_cache := (read_cache c)(q \<mapsto> d), hash_cache := (hash_cache c)(q \<mapsto> h)\<rparr>"
  from assms(1) have n: "n \<le> length (syscalls w)" by (simp add: decoded_def)
  then show "n \<le> length (syscalls ?w)" by simp
  fix p d' assume a: "read_cache ?c p = Some d'"
  show "\<exists>h' i. hash_cache ?c p = Some h' \<and> n \<le> i \<and> i < length (syscalls ?w)
         \<and> syscalls ?w ! i = OsRead p
         \<and> util_read_with_python_encoding (timeline ?w i) p (pyversion ?c) = Inr (d', h')"
  proof (cases "p = q")
    case True
    with a have "d' = d" by simp
    with True n assms(2) have "hash_cache ?c p = Some h \<and> n \<le> length (syscalls w)
         \<and> length (syscalls w) < length (syscalls ?w)
         \<and> syscalls ?w ! length (syscalls w) = OsRead p
         \<and> util_read_with_python_encoding (timeline ?w (length (syscalls w))) p (pyversion ?c)
            = Inr (d', h)"
      by (simp add: now_def)
    then show ?thesis by blast
  next
    case False
    with a have "read_cache c p = Some d'" by simp
    with assms(1) obtain h' i where hi: "hash_cache c p = Some h'" "n \<le> i"
      "i < length (syscalls w)" "syscalls w ! i = OsRead p"
      "util_read_with_python_encoding (timeline w i) p (pyversion c) = Inr (d', h')"
      unfolding decoded_def by fastforce
    with False have "hash_cache ?c p = Some h' \<and> n \<le> i \<and> i < length (syscalls ?w)
         \<and> syscalls ?w ! i = OsRead p
         \<and> util_read_with_python_encoding (timeline ?w i) p (pyversion ?c) = Inr (d', h')"
      by (simp add: nth_append)
    then show ?thesis by blast
  qed
qed

lemma read_decoded:
  assumes "read_with_python_encoding q (w, c) = (r, (w', c'))" "decoded n w c"
  shows "decoded n w' c'"
  using assms(1)
proof (cases rule: read_cases)
  case hit
  with assms(2) show ?thesis by simp
next
  case (stat_failed e)
  from stat_decoded [OF stat_failed(4) assms(2)] show ?thesis .
next
  case (ok st w1 c1 d h)
  from decoded_read_ok [OF stat_decoded [OF ok(3) assms(2)] ok(5)]
  show ?thesis unfolding ok(6,7) .
next
  case (err st w1 c1 e)
  have "decoded n w1 c1" using stat_decoded [OF err(3) assms(2)] .
  then show ?thesis
    unfolding err(6,7)
    by (rule decoded_frame) (simp_all add: extends_def)
qed

lemma exec_decoded:
  assumes "k \<noteq> Flush" "exec k (w, c) = (r, (w', c'))" "decoded n w c"
  shows "decoded n w' c'"
  using assms(1,2)
proof (cases rule: exec_cases)
  case same
  with assms(3) show ?thesis by simp
next
  case (stat q r1)
  from stat_decoded [OF this assms(3)] show ?thesis .
next
  case (listdir q r1)
  from listdir_decoded [OF this assms(3)] show ?thesis .
next
  case (read q r1)
  from read_decoded [OF this assms(3)] show ?thesis .
next
  case (listdir_stat q r1 w1 c1 q2 r2)
  from stat_decoded [OF listdir_stat(2) listdir_decoded [OF listdir_stat(1) assms(3)]]
  show ?thesis .
qed

lemma run_decoded:
  "Flush \<notin> set ks \<Longrightarrow> run ks (w, c) = (rs, (w', c')) \<Longrightarrow> decoded n w c \<Longrightarrow>
   decoded n w' c'"
proof (induction ks arbitrary: w c rs)
  case Nil
  then show ?case by simp
next
  case (Cons k ks)
  from Cons.prems(2) obtain r w1 c1 rs1
    where e: "exec k (w, c) = (r, (w1, c1))" and t: "run ks (w1, c1) = (rs1, (w', c'))"
    by (rule run_Cons_cases)
  from Cons.prems(1) have nf: "k \<noteq> Flush" "Flush \<notin> set ks" by auto
  from Cons.IH [OF nf(2) t exec_decoded [OF nf(1) e Cons.prems(3)]] show ?case .
qed

lemma flush_decoded: "decoded (length (syscalls w)) w (flush c)"
  by (simp add: decoded_def flush_def meta_flush_def)

lemma run_pyversion_eq: "run ks (w, c) = (rs, (w', c')) \<Longrightarrow> pyversion c' = pyversion c"
  using run_pyversion [of ks w c] by simp

lemma meta_call_state:
  assumes "\<not> touches_content k" "exec k (w, c) = (r, (w', c'))"
  shows "(w', c') = (w, c) \<or> (\<exists>q r1. stat q (w, c) = (r1, (w', c')))
     \<or> (\<exists>q r1. listdir q (w, c) = (r1, (w', c')))
     \<or> (\<exists>q r1 w1 c1 q2 r2. listdir q (w, c) = (r1, (w1, c1)) \<and> stat q2 (w1, c1) = (r2, (w', c')))"
proof (cases k)
  case (Stat p)
  with assms(2) have "stat p (w, c) = (fst (stat p (w, c)), (w', c'))"
    by (simp add: lift_def prod_eq_iff)
  then show ?thesis by blast
next
  case (Listdir p)
  with assms(2) have "listdir p (w, c) = (fst (listdir p (w, c)), (w', c'))"
    by (simp add: lift_def prod_eq_iff)
  then show ?thesis by blast
next
  case (Isfile p)
  with assms(2) have "isfile p (w, c) = (fst (isfile p (w, c)), (w', c'))"
    by (simp add: lift_def prod_eq_iff)
  from isfile_state [OF this] show ?thesis by blast
next
  case (Isdir p)
  with assms(2) have "isdir p (w, c) = (fst (isdir p (w, c)), (w', c'))"
    by (simp add: lift_def prod_eq_iff)
  from isdir_state [OF this] show ?thesis by blast
next
  case (Exists p)
  with assms(2) have "exists p (w, c) = (fst (exists p (w, c)), (w', c'))"
    by (simp add: lift_def prod_eq_iff)
  from exists_state [OF this] show ?thesis by blast
next
  case (IsfileCase p)
  with assms(2) have "isfile_case p (w, c) = (fst (isfile_case p (w, c)), (w', c'))"
    by (simp add: lift_def prod_eq_iff)
  from isfile_case_state [OF this] show ?thesis
  proof (elim disjE exE conjE)
    assume "(w', c') = (w, c)" then show ?thesis by simp
  next
    fix r1 assume "listdir (fst (os_path_split p)) (w, c) = (r1, (w', c'))"
    then show ?thesis by blast
  next
    fix r1 s1 r2
    assume a: "listdir (fst (os_path_split p)) (w, c) = (r1, s1)" "stat p s1 = (r2, (w', c'))"
    obtain w1 c1 where "s1 = (w1, c1)" by (cases s1)
    with a show ?thesis by blast
  qed
qed (use assms(1) in simp_all)

lemma meta_call_content:
  assumes "\<not> touches_content k" "exec k (w, c) = (r, (w', c'))"
  shows "read_cache c' = read_cache c \<and> hash_cache c' = hash_cache c
     \<and> read_error_cache c' = read_error_cache c"
  using meta_call_state [OF assms]
  by (elim disjE exE conjE) (auto dest!: stat_frame listdir_frame)

lemma meta_call_content':
  "\<not> touches_content k \<Longrightarrow>
   read_cache (snd (snd (exec k (w, c)))) = read_cache c
   \<and> hash_cache (snd (snd (exec k (w, c)))) = hash_cache c"
  using meta_call_content [of k w c "fst (exec k (w, c))" "fst (snd (exec k (w, c)))"
      "snd (snd (exec k (w, c)))"] by simp

lemma read_Inl_uncached:
  "read_with_python_encoding q (w, c) = (Inl e, s') \<Longrightarrow> read_cache c q = None"
  by (cases "read_cache c q") (simp_all add: read_with_python_encoding_def)

lemma md5_of_read_ok:
  assumes "coupled c" "read_with_python_encoding p (w, c) = (Inr d, (w1, c1))"
    "hash_cache c1 p = Some h"
  shows "md5 p (w, c) = (Inr h, (w1, c1))"
proof (cases "hash_cache c p")
  case None
  with assms(2,3) show ?thesis by (simp add: md5_def)
next
  case (Some h')
  with coupledD [OF assms(1), of p] obtain d' where d': "read_cache c p = Some d'" by auto
  with assms(2) have "w1 = w" "c1 = c"
    by (simp_all add: read_with_python_encoding_def)
  with assms(3) Some show ?thesis by (simp add: md5_def)
qed

lemma md5_of_read_err:
  assumes "coupled c" "read_with_python_encoding q (w, c) = (Inl e, s')"
  shows "md5 q (w, c) = (Inl e, s')"
proof -
  from read_Inl_uncached [OF assms(2)] coupledD [OF assms(1), of q]
  have "hash_cache c q = None" by simp
  with assms(2) show ?thesis by (simp add: md5_def)
qed

lemma md5_ok_read_ok:
  assumes "coupled c" "md5 q (w, c) = (Inr h', s')"
  shows "\<exists>d'. read_with_python_encoding q (w, c) = (Inr d', s')"
proof (cases "hash_cache c q")
  case None
  with assms(2) show ?thesis
    by (auto simp: md5_def split: prod.splits sum.splits option.splits)
next
  case (Some h'')
  with coupledD [OF assms(1), of q] obtain d' where d': "read_cache c q = Some d'" by auto
  from Some assms(2) have "s' = (w, c)" by (simp add: md5_def)
  with d' show ?thesis by (simp add: read_with_python_encoding_def)
qed

section \<open>Flushing\<close>

text \<open>
  C8. Whatever the caches hold, \<open>FileSystemMetaCache.flush\<close> leaves the two metadata
  caches and the two metadata error caches empty, and \<open>FileSystemCache.flush\<close> leaves
  all seven caches empty: the four of the parent, the content cache, the fingerprint
  cache and the read-error cache. A \<open>Flush\<close> call makes no external read, and after any
  sequence of calls a flush gives back the cache of the constructor.
\<close>

theorem flush_empties_every_cache:
  "stat_cache (meta_flush m) = Map.empty \<and> listdir_cache (meta_flush m) = Map.empty
   \<and> stat_error_cache (meta_flush m) = Map.empty
   \<and> listdir_error_cache (meta_flush m) = Map.empty
   \<and> stat_cache (flush c) = Map.empty \<and> listdir_cache (flush c) = Map.empty
   \<and> stat_error_cache (flush c) = Map.empty \<and> listdir_error_cache (flush c) = Map.empty
   \<and> read_cache (flush c) = Map.empty \<and> read_error_cache (flush c) = Map.empty
   \<and> hash_cache (flush c) = Map.empty
   \<and> exec Flush (w, c) = (Inr VNone, (w, flush c))
   \<and> flush (snd (snd (run ks (w, c)))) = FileSystemCache_init (pyversion c)"
  by (simp add: flush_is_init run_pyversion) (simp add: FileSystemCache_init_def flush_def meta_flush_def)

section \<open>Repeating a call within a transaction\<close>

text \<open>
  C1. In any state the cache can reach from its construction, let \<open>k\<close> be a call of
  \<open>stat\<close>, \<open>listdir\<close>, \<open>read_with_python_encoding\<close> or \<open>md5\<close> on a path, with result
  \<open>r1\<close> (a value or an exception). After any further calls other than \<open>flush\<close>, the same
  call returns \<open>r1\<close> again and changes nothing, whatever file systems the timeline of
  the world holds for the instants in between.
\<close>

theorem repeated_call_same_result:
  assumes "run history (w0, FileSystemCache_init v) = (rs0, s)"
    and "memoised k" and "Flush \<notin> set between"
    and "exec k s = (r1, s1)" and "run between s1 = (rs, s2)"
  shows "exec k s2 = (r1, s2)"
proof -
  obtain w c where s: "s = (w, c)" by (cases s)
  obtain w1 c1 where s1: "s1 = (w1, c1)" by (cases s1)
  obtain w2 c2 where s2: "s2 = (w2, c2)" by (cases s2)
  have c: "coupled c"
    using run_coupled [OF assms(1) [unfolded s] init_coupled] .
  have c1: "coupled c1"
    using exec_coupled [OF assms(4) [unfolded s s1] c] .
  have k: "keeps c1 c2"
    using run_keeps [OF assms(3) assms(5) [unfolded s1 s2] c1] .
  show ?thesis
  proof (cases k)
    case (Stat p)
    then obtain r where r: "stat p (w, c) = (r, (w1, c1))" "r1 = map_sum id VStat r"
      using assms(4) s s1 by (auto simp: lift_def) (metis prod.collapse)
    from stat_fixes [OF r(1)] k have "stat_answer c2 p = Some r" by (simp add: keeps_def)
    from stat_replay [OF this] show ?thesis by (simp add: Stat s2 r(2) lift_def)
  next
    case (Listdir p)
    then obtain r where r: "listdir p (w, c) = (r, (w1, c1))" "r1 = map_sum id VNames r"
      using assms(4) s s1 by (auto simp: lift_def) (metis prod.collapse)
    from listdir_fixes [OF r(1)] k have "listdir_answer c2 p = Some r" by (simp add: keeps_def)
    from listdir_replay [OF this] show ?thesis by (simp add: Listdir s2 r(2) lift_def)
  next
    case (ReadText p)
    then obtain r where r: "read_with_python_encoding p (w, c) = (r, (w1, c1))"
        "r1 = map_sum id VStr r"
      using assms(4) s s1 by (auto simp: lift_def) (metis prod.collapse)
    from read_fixes [OF r(1)] k have "read_answer c2 p = Some r" by (simp add: keeps_def)
    from read_replay [OF this] show ?thesis by (simp add: ReadText s2 r(2) lift_def)
  next
    case (Md5 p)
    then obtain r where r: "md5 p (w, c) = (r, (w1, c1))" "r1 = map_sum id VStr r"
      using assms(4) s s1 by (auto simp: lift_def) (metis prod.collapse)
    from md5_fixes [OF r(1)] k have "md5_answer c2 p = Some r" by (simp add: keeps_def)
    from md5_replay [OF this] show ?thesis by (simp add: Md5 s2 r(2) lift_def)
  qed (use assms(2) in simp_all)
qed

theorem repeated_call_same_result_witness:
  "fst (exec (Md5 ''pkg/Foo.py'') (vanishing_world, FileSystemCache_init (3, 8)))
     = Inr (VStr ''5b2d'')
   \<and> fst (run [Isdir ''pkg'', Listdir ''pkg'']
         (snd (exec (Md5 ''pkg/Foo.py'') (vanishing_world, FileSystemCache_init (3, 8)))))
     = [Inr (VBool False), Inl (Exn FileNotFoundError ''pkg'')]
   \<and> fst (exec (Md5 ''pkg/Foo.py'')
         (snd (run [Isdir ''pkg'', Listdir ''pkg'']
           (snd (exec (Md5 ''pkg/Foo.py'') (vanishing_world, FileSystemCache_init (3, 8)))))))
     = Inr (VStr ''5b2d'')"
proof -
  let ?s = "(vanishing_world, FileSystemCache_init (3, 8))"
  let ?k = "Md5 ''pkg/Foo.py''"
  let ?b = "[Isdir ''pkg'', Listdir ''pkg'']"
  have h: "run [] ?s = ([], ?s)" "memoised ?k" "Flush \<notin> set ?b"
    by simp_all
  have e: "exec ?k ?s = (fst (exec ?k ?s), snd (exec ?k ?s))"
    and r: "run ?b (snd (exec ?k ?s)) = (fst (run ?b (snd (exec ?k ?s))), snd (run ?b (snd (exec ?k ?s))))"
    by simp_all
  have 1: "fst (exec ?k ?s) = Inr (VStr ''5b2d'')"
    by (simp only: demo_first fst_conv)
  have 2: "fst (run ?b (snd (exec ?k ?s))) = [Inr (VBool False), Inl (Exn FileNotFoundError ''pkg'')]"
    unfolding demo_first snd_conv
    by (simp add: all_defs demo_defs isinstance_OSError_def)
  from repeated_call_same_result [OF h(1) h(2) h(3) e r] 1 2 show ?thesis
    by simp
qed

section \<open>Invariants of the caches\<close>

text \<open>
  C9. For every path at most one of a stored \<open>stat\<close> result and a stored \<open>stat\<close> error
  exists, and likewise for \<open>listdir\<close> and for the content read. The freshly constructed
  cache has the property, every call (including \<open>flush\<close>) preserves it, and so it holds
  after every sequence of calls.
\<close>

theorem success_and_error_caches_exclusive:
  "exclusive (FileSystemCache_init v)
   \<and> (exclusive c \<longrightarrow> exclusive (snd (snd (exec k (w, c)))))
   \<and> (exclusive c \<longrightarrow> exclusive (snd (snd (run ks (w, c)))))
   \<and> exclusive (snd (snd (run ks (w, FileSystemCache_init v))))"
  by (simp add: init_exclusive exec_exclusive' run_exclusive')

theorem success_and_error_caches_exclusive_witness:
  "exclusive (FileSystemCache_init (3, 8))
   \<and> exclusive (snd (snd (exec (ReadText ''missing'') (demo_world, FileSystemCache_init (3, 8)))))
   \<and> stat_error_cache (snd (snd (exec (ReadText ''missing'') (demo_world, FileSystemCache_init (3, 8)))))
        ''missing'' = Some (Exn FileNotFoundError ''missing'')
   \<and> stat_cache (snd (snd (exec (ReadText ''missing'') (demo_world, FileSystemCache_init (3, 8)))))
        ''missing'' = None"
proof -
  have "exclusive (FileSystemCache_init (3, 8))"
    by (simp add: exclusive_def FileSystemCache_init_def flush_def meta_flush_def)
  with success_and_error_caches_exclusive
         [of "(3, 8)" "FileSystemCache_init (3, 8)" "ReadText ''missing''" demo_world "[]"]
  show ?thesis
    by (simp add: all_defs demo_defs)
qed

text \<open>
  C10. The content cache and the fingerprint cache always have the same keys: this holds
  for the constructed cache, every call preserves it, and so it holds after every sequence
  of calls; a call other than \<open>read_with_python_encoding\<close>, \<open>md5\<close> and \<open>flush\<close> leaves
  both caches as they are. Hence a path has a stored fingerprint exactly when it has a
  stored text, and then \<open>md5\<close> and \<open>read_with_python_encoding\<close> both answer from the
  caches.
\<close>

theorem content_and_fingerprint_same_keys:
  "coupled (FileSystemCache_init v)
   \<and> (coupled c \<longrightarrow> coupled (snd (snd (exec k (w, c)))))
   \<and> (\<not> touches_content k \<longrightarrow>
        read_cache (snd (snd (exec k (w, c)))) = read_cache c
        \<and> hash_cache (snd (snd (exec k (w, c)))) = hash_cache c)
   \<and> coupled (snd (snd (run ks (w, FileSystemCache_init v))))
   \<and> (coupled c \<longrightarrow> (hash_cache c p \<noteq> None \<longleftrightarrow> read_cache c p \<noteq> None))
   \<and> (coupled c \<and> hash_cache c p \<noteq> None \<longrightarrow>
        md5 p (w, c) = (Inr (the (hash_cache c p)), (w, c))
        \<and> read_with_python_encoding p (w, c) = (Inr (the (read_cache c p)), (w, c)))"
  using coupledD [of c p] meta_call_content' [of k w c]
  by (simp add: init_coupled exec_coupled' run_coupled' cached_fingerprint_served)

theorem content_and_fingerprint_same_keys_witness:
  "coupled (FileSystemCache_init (3, 8))
   \<and> coupled (snd (snd (exec (Md5 ''pkg/Foo.py'') (demo_world, FileSystemCache_init (3, 8)))))
   \<and> hash_cache (snd (snd (exec (Md5 ''pkg/Foo.py'') (demo_world, FileSystemCache_init (3, 8)))))
        ''pkg/Foo.py'' = Some ''5b2d''
   \<and> read_cache (snd (snd (exec (Md5 ''pkg/Foo.py'') (demo_world, FileSystemCache_init (3, 8)))))
        ''pkg/Foo.py'' = Some ''x = 1''
   \<and> \<not> touches_content (Isfile ''pkg/Foo.py'')
   \<and> read_cache (snd (snd (exec (Isfile ''pkg/Foo.py'') (demo_world, FileSystemCache_init (3, 8)))))
       = Map.empty
   \<and> hash_cache (snd (snd (exec (Isfile ''pkg/Foo.py'') (demo_world, FileSystemCache_init (3, 8)))))
       = Map.empty"
proof -
  have "coupled (FileSystemCache_init (3, 8))"
    by (simp add: coupled_def FileSystemCache_init_def flush_def meta_flush_def)
  with content_and_fingerprint_same_keys
         [of "(3, 8)" "FileSystemCache_init (3, 8)" "Md5 ''pkg/Foo.py''" demo_world "[]"]
       content_and_fingerprint_same_keys
         [of "(3, 8)" "FileSystemCache_init (3, 8)" "Isfile ''pkg/Foo.py''" demo_world "[]"]
  show ?thesis
    by (simp add: all_defs demo_defs)
qed

section \<open>The boolean queries\<close>

text \<open>
  C5. \<open>exists\<close> returns \<open>True\<close> when \<open>stat\<close> succeeds, \<open>False\<close> exactly when \<open>stat\<close>
  (stored or fresh) fails with a \<open>FileNotFoundError\<close>, and raises the error of \<open>stat\<close>
  exactly when it is of any other kind.
\<close>

theorem exists_hides_only_not_found:
  "(stat_answer c p = Some (Inr st) \<longrightarrow> exists p (w, c) = (Inr True, (w, c)))
   \<and> (stat_answer c p = Some (Inl e) \<longrightarrow>
        exists p (w, c) = (if isinstance_FileNotFoundError e then Inr False else Inl e, (w, c)))
   \<and> (stat_answer c p = None \<longrightarrow>
        fst (exists p (w, c)) =
          (case os_stat (now w) p of
             Inl e \<Rightarrow> if isinstance_FileNotFoundError e then Inr False else Inl e
           | Inr st \<Rightarrow> Inr True))
   \<and> (fst (exists p s) = Inr False \<longleftrightarrow>
        (\<exists>e. fst (stat p s) = Inl e \<and> isinstance_FileNotFoundError e))
   \<and> (fst (exists p s) = Inr True \<longleftrightarrow> (\<exists>st. fst (stat p s) = Inr st))
   \<and> (fst (exists p s) = Inl e \<longleftrightarrow>
        fst (stat p s) = Inl e \<and> \<not> isinstance_FileNotFoundError e)"
proof (intro conjI impI)
  assume "stat_answer c p = Some (Inr st)"
  from stat_replay [OF this] show "exists p (w, c) = (Inr True, (w, c))"
    by (simp add: exists_def)
next
  assume "stat_answer c p = Some (Inl e)"
  from stat_replay [OF this]
  show "exists p (w, c) = (if isinstance_FileNotFoundError e then Inr False else Inl e, (w, c))"
    by (simp add: exists_def)
next
  assume "stat_answer c p = None"
  then show "fst (exists p (w, c)) =
          (case os_stat (now w) p of
             Inl e \<Rightarrow> if isinstance_FileNotFoundError e then Inr False else Inl e
           | Inr st \<Rightarrow> Inr True)"
    by (simp add: exists_result stat_fresh)
next
  show "fst (exists p s) = Inr False \<longleftrightarrow>
        (\<exists>e. fst (stat p s) = Inl e \<and> isinstance_FileNotFoundError e)"
    by (auto simp: exists_result split: sum.splits if_splits)
next
  show "fst (exists p s) = Inr True \<longleftrightarrow> (\<exists>st. fst (stat p s) = Inr st)"
    by (auto simp: exists_result split: sum.splits if_splits)
next
  show "fst (exists p s) = Inl e \<longleftrightarrow>
        fst (stat p s) = Inl e \<and> \<not> isinstance_FileNotFoundError e"
    by (auto simp: exists_result split: sum.splits if_splits)
qed

theorem exists_hides_only_not_found_witness:
  "fst (exists ''missing'' (demo_world, FileSystemCache_init (3, 8))) = Inr False
   \<and> fst (exists ''root'' (demo_world, FileSystemCache_init (3, 8)))
       = Inl (Exn PermissionError ''root'')
   \<and> fst (exists ''pkg'' (demo_world, FileSystemCache_init (3, 8))) = Inr True
   \<and> exists ''root'' (snd (exists ''root'' (demo_world, FileSystemCache_init (3, 8))))
       = (Inl (Exn PermissionError ''root''), snd (exists ''root'' (demo_world, FileSystemCache_init (3, 8))))"
proof -
  let ?c = "FileSystemCache_init (3, 8)"
  have n: "stat_answer ?c p = None" for p
    by (simp add: stat_answer_def demo_defs)
  have s: "snd (exists ''root'' (demo_world, ?c)) =
      (demo_world\<lparr>syscalls := [OsStat ''root'']\<rparr>,
       ?c\<lparr>stat_error_cache := [''root'' \<mapsto> Exn PermissionError ''root'']\<rparr>)"
    by (simp add: all_defs demo_defs isinstance_FileNotFoundError_def)
  have a: "stat_answer (?c\<lparr>stat_error_cache := [''root'' \<mapsto> Exn PermissionError ''root'']\<rparr>) ''root''
      = Some (Inl (Exn PermissionError ''root''))"
    by (simp add: stat_answer_def demo_defs)
  from exists_hides_only_not_found [of ?c "''missing''" _ demo_world _ "(demo_world, ?c)"]
       exists_hides_only_not_found [of ?c "''root''" _ demo_world _ "(demo_world, ?c)"]
       exists_hides_only_not_found [of ?c "''pkg''" _ demo_world _ "(demo_world, ?c)"]
       exists_hides_only_not_found
         [of "?c\<lparr>stat_error_cache := [''root'' \<mapsto> Exn PermissionError ''root'']\<rparr>" "''root''" _
             "demo_world\<lparr>syscalls := [OsStat ''root'']\<rparr>" "Exn PermissionError ''root''"
             "(demo_world, ?c)"]
       n a
  show ?thesis
    unfolding s
    by (simp add: demo_world_def demo_fs_def now_def isinstance_FileNotFoundError_def)
qed

text \<open>
  C4, as stated: \<open>isfile\<close>, \<open>isdir\<close> and \<open>isfile_case\<close> never raise, whatever error the
  underlying \<open>stat\<close> or \<open>listdir\<close> fails with. The handlers are \<open>except OSError\<close>, and
  \<open>os.stat\<close> and \<open>os.listdir\<close> raise \<open>ValueError\<close> for a path with an embedded null
  character: on such a path each of the three queries raises.
\<close>

theorem boolean_queries_raise_on_null_byte:
  "fst (isfile [CHR 0x00] (demo_world, FileSystemCache_init (3, 8)))
     = Inl (Exn ValueError ''embedded null byte'')
   \<and> fst (isdir [CHR 0x00] (demo_world, FileSystemCache_init (3, 8)))
     = Inl (Exn ValueError ''embedded null byte'')
   \<and> fst (isfile_case [CHR 0x00, CHR ''/'', CHR ''a''] (demo_world, FileSystemCache_init (3, 8)))
     = Inl (Exn ValueError ''embedded null byte'')"
  by (simp add: demo_null_byte)

text \<open>
  C4, amended. The three queries turn every \<open>OSError\<close> of \<open>stat\<close> or \<open>listdir\<close> into
  \<open>False\<close>, and they never raise an \<open>OSError\<close>. An exception of \<open>stat\<close> or \<open>listdir\<close>
  that is not an \<open>OSError\<close> is raised again, and nothing else is ever raised. In full:
  \<open>isfile\<close> and \<open>isdir\<close> return the type test of the mode when \<open>stat\<close> succeeds;
  \<open>isfile_case\<close> returns \<open>False\<close> for an empty final component and for a final component
  missing from the listing, and otherwise the answer of \<open>isfile\<close> after the listing, where
  an \<open>OSError\<close> of \<open>stat\<close> gives \<open>False\<close>.
\<close>

theorem boolean_queries_hide_OSError:
  "(fst (stat p s) = Inl e \<and> isinstance_OSError e \<longrightarrow>
      fst (isfile p s) = Inr False \<and> fst (isdir p s) = Inr False)
   \<and> (fst (isfile p s) = Inl e \<longrightarrow> fst (stat p s) = Inl e \<and> \<not> isinstance_OSError e)
   \<and> (fst (isdir p s) = Inl e \<longrightarrow> fst (stat p s) = Inl e \<and> \<not> isinstance_OSError e)
   \<and> (fst (listdir (fst (os_path_split p)) s) = Inl e \<and> isinstance_OSError e \<longrightarrow>
        fst (isfile_case p s) = Inr False)
   \<and> (fst (isfile_case p s) = Inl e \<longrightarrow>
        \<not> isinstance_OSError e
        \<and> (fst (listdir (fst (os_path_split p)) s) = Inl e
           \<or> (\<exists>names s1. listdir (fst (os_path_split p)) s = (Inr names, s1)
                \<and> fst (stat p s1) = Inl e)))
   \<and> (fst (stat p s) = Inl e \<and> \<not> isinstance_OSError e \<longrightarrow>
        fst (isfile p s) = Inl e \<and> fst (isdir p s) = Inl e)
   \<and> (fst (stat p s) = Inr st \<longrightarrow>
        fst (isfile p s) = Inr (S_ISREG (st_mode st))
        \<and> fst (isdir p s) = Inr (S_ISDIR (st_mode st)))
   \<and> (snd (os_path_split p) = [] \<longrightarrow> fst (isfile_case p s) = Inr False)
   \<and> (snd (os_path_split p) \<noteq> [] \<and> fst (listdir (fst (os_path_split p)) s) = Inl e
        \<and> \<not> isinstance_OSError e \<longrightarrow> fst (isfile_case p s) = Inl e)
   \<and> (snd (os_path_split p) \<noteq> [] \<and> listdir (fst (os_path_split p)) s = (Inr names, s1)
        \<and> snd (os_path_split p) \<notin> set names \<longrightarrow> fst (isfile_case p s) = Inr False)
   \<and> (snd (os_path_split p) \<noteq> [] \<and> listdir (fst (os_path_split p)) s = (Inr names, s1)
        \<and> snd (os_path_split p) \<in> set names \<and> fst (stat p s1) = Inl e \<longrightarrow>
        fst (isfile_case p s) = (if isinstance_OSError e then Inr False else Inl e))
   \<and> (snd (os_path_split p) \<noteq> [] \<and> listdir (fst (os_path_split p)) s = (Inr names, s1)
        \<and> snd (os_path_split p) \<in> set names \<and> fst (stat p s1) = Inr st \<longrightarrow>
        fst (isfile_case p s) = Inr (S_ISREG (st_mode st)))"
proof (intro conjI impI)
  assume a: "fst (stat p s) = Inl e \<and> isinstance_OSError e"
  then show "fst (isfile p s) = Inr False" by (simp add: isfile_result)
  from a show "fst (isdir p s) = Inr False" by (simp add: isdir_result)
next
  assume "fst (isfile p s) = Inl e"
  then show "fst (stat p s) = Inl e" "\<not> isinstance_OSError e"
    by (auto simp: isfile_result split: sum.splits if_splits)
next
  assume "fst (isdir p s) = Inl e"
  then show "fst (stat p s) = Inl e" "\<not> isinstance_OSError e"
    by (auto simp: isdir_result split: sum.splits if_splits)
next
  assume "fst (listdir (fst (os_path_split p)) s) = Inl e \<and> isinstance_OSError e"
  then show "fst (isfile_case p s) = Inr False"
    by (auto simp: isfile_case_result split: prod.splits sum.splits)
next
  assume a: "fst (isfile_case p s) = Inl e"
  then show "\<not> isinstance_OSError e"
    by (auto simp: isfile_case_result isfile_result split: prod.splits sum.splits if_splits)
  from a show "fst (listdir (fst (os_path_split p)) s) = Inl e
           \<or> (\<exists>names s1. listdir (fst (os_path_split p)) s = (Inr names, s1)
                \<and> fst (stat p s1) = Inl e)"
    by (auto simp: isfile_case_result isfile_result split: prod.splits sum.splits if_splits)
next
  assume a: "fst (stat p s) = Inl e \<and> \<not> isinstance_OSError e"
  then show "fst (isfile p s) = Inl e" by (simp add: isfile_result)
  from a show "fst (isdir p s) = Inl e" by (simp add: isdir_result)
next
  assume a: "fst (stat p s) = Inr st"
  then show "fst (isfile p s) = Inr (S_ISREG (st_mode st))" by (simp add: isfile_result)
  from a show "fst (isdir p s) = Inr (S_ISDIR (st_mode st))" by (simp add: isdir_result)
next
  assume "snd (os_path_split p) = []"
  then show "fst (isfile_case p s) = Inr False" by (simp add: isfile_case_result)
next
  assume "snd (os_path_split p) \<noteq> [] \<and> fst (listdir (fst (os_path_split p)) s) = Inl e
        \<and> \<not> isinstance_OSError e"
  then show "fst (isfile_case p s) = Inl e"
    by (auto simp: isfile_case_result split: prod.splits sum.splits)
next
  assume "snd (os_path_split p) \<noteq> [] \<and> listdir (fst (os_path_split p)) s = (Inr names, s1)
        \<and> snd (os_path_split p) \<notin> set names"
  then show "fst (isfile_case p s) = Inr False"
    by (simp add: isfile_case_result)
next
  assume "snd (os_path_split p) \<noteq> [] \<and> listdir (fst (os_path_split p)) s = (Inr names, s1)
        \<and> snd (os_path_split p) \<in> set names \<and> fst (stat p s1) = Inl e"
  then show "fst (isfile_case p s) = (if isinstance_OSError e then Inr False else Inl e)"
    by (simp add: isfile_case_result isfile_result)
next
  assume "snd (os_path_split p) \<noteq> [] \<and> listdir (fst (os_path_split p)) s = (Inr names, s1)
        \<and> snd (os_path_split p) \<in> set names \<and> fst (stat p s1) = Inr st"
  then show "fst (isfile_case p s) = Inr (S_ISREG (st_mode st))"
    by (simp add: isfile_case_result isfile_result)
qed

theorem boolean_queries_hide_OSError_witness:
  "fst (stat ''root'' (demo_world, FileSystemCache_init (3, 8))) = Inl (Exn PermissionError ''root'')
   \<and> isinstance_OSError (Exn PermissionError ''root'')
   \<and> fst (isfile ''root'' (demo_world, FileSystemCache_init (3, 8))) = Inr False
   \<and> fst (isdir ''root'' (demo_world, FileSystemCache_init (3, 8))) = Inr False
   \<and> fst (isfile_case ''root/x.py'' (demo_world, FileSystemCache_init (3, 8))) = Inr False
   \<and> fst (isfile [CHR 0x00] (demo_world, FileSystemCache_init (3, 8)))
       = Inl (Exn ValueError ''embedded null byte'')
   \<and> \<not> isinstance_OSError (Exn ValueError ''embedded null byte'')
   \<and> fst (stat [CHR 0x00] (demo_world, FileSystemCache_init (3, 8)))
       = Inl (Exn ValueError ''embedded null byte'')
   \<and> fst (isdir [CHR 0x00] (demo_world, FileSystemCache_init (3, 8)))
       = Inl (Exn ValueError ''embedded null byte'')
   \<and> fst (listdir [CHR 0x00] (demo_world, FileSystemCache_init (3, 8)))
       = Inl (Exn ValueError ''embedded null byte'')
   \<and> fst (isfile_case [CHR 0x00, CHR ''/'', CHR ''a''] (demo_world, FileSystemCache_init (3, 8)))
       = Inl (Exn ValueError ''embedded null byte'')
   \<and> fst (stat ''pkg/Foo.py'' (demo_world, FileSystemCache_init (3, 8))) = Inr regular_file
   \<and> fst (isfile ''pkg/Foo.py'' (demo_world, FileSystemCache_init (3, 8))) = Inr True
   \<and> fst (isdir ''pkg/Foo.py'' (demo_world, FileSystemCache_init (3, 8))) = Inr False
   \<and> fst (isfile_case ''pkg/'' (demo_world, FileSystemCache_init (3, 8))) = Inr False
   \<and> fst (isfile_case ''pkg/missing.py'' (demo_world, FileSystemCache_init (3, 8))) = Inr False
   \<and> fst (isfile_case ''pkg/Foo.py'' (demo_world, FileSystemCache_init (3, 8))) = Inr True
   \<and> listdir ''pkg'' (racing_world, FileSystemCache_init (3, 8))
       = (Inr [''Foo.py''],
          (racing_world\<lparr>syscalls := [OsListdir ''pkg'']\<rparr>,
           (FileSystemCache_init (3, 8))\<lparr>listdir_cache := [''pkg'' \<mapsto> [''Foo.py'']]\<rparr>))
   \<and> fst (stat ''pkg/Foo.py''
          (racing_world\<lparr>syscalls := [OsListdir ''pkg'']\<rparr>,
           (FileSystemCache_init (3, 8))\<lparr>listdir_cache := [''pkg'' \<mapsto> [''Foo.py'']]\<rparr>))
       = Inl (Exn FileNotFoundError ''pkg/Foo.py'')
   \<and> fst (isfile_case ''pkg/Foo.py'' (racing_world, FileSystemCache_init (3, 8))) = Inr False"
proof -
  let ?s = "(demo_world, FileSystemCache_init (3, 8))"
  let ?t = "(racing_world, FileSystemCache_init (3, 8))"
  let ?t1 = "(racing_world\<lparr>syscalls := [OsListdir ''pkg'']\<rparr>,
           (FileSystemCache_init (3, 8))\<lparr>listdir_cache := [''pkg'' \<mapsto> [''Foo.py'']]\<rparr>)"
  let ?v = "Exn ValueError ''embedded null byte''"
  let ?d1 = "(demo_world\<lparr>syscalls := [OsListdir ''pkg'']\<rparr>,
           (FileSystemCache_init (3, 8))\<lparr>listdir_cache := [''pkg'' \<mapsto> [''Foo.py'']]\<rparr>)"
  have 1: "fst (stat ''root'' ?s) = Inl (Exn PermissionError ''root'')"
    and 2: "fst (listdir ''root'' ?s) = Inl (Exn PermissionError ''root'')"
    and 3: "isinstance_OSError (Exn PermissionError ''root'')"
    and 4: "fst (stat [CHR 0x00] ?s) = Inl ?v"
    and 5: "fst (listdir [CHR 0x00] ?s) = Inl ?v"
    and 6: "\<not> isinstance_OSError ?v"
    and 7: "fst (stat ''pkg/Foo.py'' ?s) = Inr regular_file"
    and 8: "listdir ''pkg'' ?s = (Inr [''Foo.py''], ?d1)"
    and 9: "fst (stat ''pkg/Foo.py'' ?d1) = Inr regular_file"
    by (simp_all add: meta_defs os_defs demo_defs isinstance_OSError_def)
  have 10: "listdir ''pkg'' ?t = (Inr [''Foo.py''], ?t1)"
    and 11: "fst (stat ''pkg/Foo.py'' ?t1) = Inl (Exn FileNotFoundError ''pkg/Foo.py'')"
    and 12: "isinstance_OSError (Exn FileNotFoundError ''pkg/Foo.py'')"
    by (simp_all add: meta_defs os_defs demo_defs racing_world_def isinstance_OSError_def)
  have m: "S_ISREG (st_mode regular_file)" "\<not> S_ISDIR (st_mode regular_file)"
    by (simp_all add: regular_file_def S_ISREG_def S_ISDIR_def S_IFMT_def)
  note a = boolean_queries_hide_OSError [of "''root''" ?s "Exn PermissionError ''root''"]
  note b = boolean_queries_hide_OSError [of "''root/x.py''" ?s "Exn PermissionError ''root''"]
  note c = boolean_queries_hide_OSError [of "[CHR 0x00]" ?s ?v]
  note d = boolean_queries_hide_OSError [of "[CHR 0x00, CHR ''/'', CHR ''a'']" ?s ?v]
  note e = boolean_queries_hide_OSError [of "''pkg/Foo.py''" ?s _ regular_file "[''Foo.py'']" ?d1]
  note f = boolean_queries_hide_OSError [of "''pkg/''" ?s]
  note g = boolean_queries_hide_OSError [of "''pkg/missing.py''" ?s _ _ "[''Foo.py'']" ?d1]
  note h = boolean_queries_hide_OSError
             [of "''pkg/Foo.py''" ?t "Exn FileNotFoundError ''pkg/Foo.py''" _ "[''Foo.py'']" ?t1]
  from a 1 3 have A: "fst (isfile ''root'' ?s) = Inr False" "fst (isdir ''root'' ?s) = Inr False"
    by simp_all
  from b 2 3 have B: "fst (isfile_case ''root/x.py'' ?s) = Inr False"
    by (simp add: split_demo)
  from c 4 6 have C: "fst (isfile [CHR 0x00] ?s) = Inl ?v" "fst (isdir [CHR 0x00] ?s) = Inl ?v"
    by simp_all
  from d 5 6 have D: "fst (isfile_case [CHR 0x00, CHR ''/'', CHR ''a''] ?s) = Inl ?v"
    by (simp add: split_demo)
  from e 7 8 9 m have E: "fst (isfile ''pkg/Foo.py'' ?s) = Inr True"
    "fst (isdir ''pkg/Foo.py'' ?s) = Inr False" "fst (isfile_case ''pkg/Foo.py'' ?s) = Inr True"
    by (simp_all add: split_demo)
  from f have F: "fst (isfile_case ''pkg/'' ?s) = Inr False"
    by (simp add: split_demo)
  from g 8 have G: "fst (isfile_case ''pkg/missing.py'' ?s) = Inr False"
    by (simp add: split_demo)
  from h 10 11 12 have H: "fst (isfile_case ''pkg/Foo.py'' ?t) = Inr False"
    by (simp add: split_demo)
  from 1 3 A B C 6 4 5 D 7 E F G 10 11 H show ?thesis by simp
qed

text \<open>
  C6. \<open>isfile_case\<close> returns \<open>False\<close> at once, without touching the state, when the
  final component of the path is empty. Otherwise it returns \<open>True\<close> exactly when the
  listing of the parent directory succeeds, contains the final component as written, and
  \<open>isfile\<close> of the path is \<open>True\<close>; it returns \<open>False\<close> when the listing fails with an
  \<open>OSError\<close>. On \<open>demo_fs\<close>, where \<open>pkg\<close> lists exactly \<open>Foo.py\<close> and \<open>os.stat\<close> ignores
  case: \<open>pkg/Foo.py\<close> gives \<open>True\<close>; \<open>pkg/foo.py\<close>, \<open>pkg/missing.py\<close>, \<open>pkg/\<close> and the
  empty path give \<open>False\<close>.
\<close>

theorem isfile_case_exact_case:
  "(snd (os_path_split p) = [] \<longrightarrow> isfile_case p s = (Inr False, s))
   \<and> (snd (os_path_split p) \<noteq> [] \<longrightarrow>
        (fst (isfile_case p s) = Inr True \<longleftrightarrow>
          (\<exists>names s1. listdir (fst (os_path_split p)) s = (Inr names, s1)
             \<and> snd (os_path_split p) \<in> set names \<and> fst (isfile p s1) = Inr True)))
   \<and> (snd (os_path_split p) \<noteq> [] \<and> fst (listdir (fst (os_path_split p)) s) = Inl e
        \<and> isinstance_OSError e \<longrightarrow> fst (isfile_case p s) = Inr False)
   \<and> os_listdir demo_fs ''pkg'' = Inr [''Foo.py'']
   \<and> fst (isfile_case ''pkg/Foo.py'' (demo_world, FileSystemCache_init (3, 8))) = Inr True
   \<and> fst (isfile_case ''pkg/foo.py'' (demo_world, FileSystemCache_init (3, 8))) = Inr False
   \<and> fst (isfile_case ''pkg/missing.py'' (demo_world, FileSystemCache_init (3, 8))) = Inr False
   \<and> fst (isfile_case ''pkg/'' (demo_world, FileSystemCache_init (3, 8))) = Inr False
   \<and> fst (isfile_case [] (demo_world, FileSystemCache_init (3, 8))) = Inr False"
proof -
  have a: "snd (os_path_split p) = [] \<longrightarrow> isfile_case p s = (Inr False, s)"
    by (simp add: isfile_case_def split: prod.splits)
  have b: "snd (os_path_split p) \<noteq> [] \<longrightarrow>
        (fst (isfile_case p s) = Inr True \<longleftrightarrow>
          (\<exists>names s1. listdir (fst (os_path_split p)) s = (Inr names, s1)
             \<and> snd (os_path_split p) \<in> set names \<and> fst (isfile p s1) = Inr True))"
    by (auto simp: isfile_case_result split: prod.splits sum.splits if_splits)
  have c: "snd (os_path_split p) \<noteq> [] \<and> fst (listdir (fst (os_path_split p)) s) = Inl e
        \<and> isinstance_OSError e \<longrightarrow> fst (isfile_case p s) = Inr False"
    by (auto simp: isfile_case_result split: prod.splits sum.splits)
  have d: "os_listdir demo_fs ''pkg'' = Inr [''Foo.py'']"
    by (simp add: demo_fs_def)
  from a b c d demo_isfile_case show ?thesis by simp
qed

theorem isfile_case_exact_case_witness:
  "snd (os_path_split ''pkg/'') = []
   \<and> isfile_case ''pkg/'' (demo_world, FileSystemCache_init (3, 8))
       = (Inr False, (demo_world, FileSystemCache_init (3, 8)))
   \<and> snd (os_path_split ''pkg/Foo.py'') \<noteq> []
   \<and> fst (isfile_case ''pkg/Foo.py'' (demo_world, FileSystemCache_init (3, 8))) = Inr True
   \<and> snd (os_path_split ''root/x.py'') \<noteq> []
   \<and> fst (listdir (fst (os_path_split ''root/x.py'')) (demo_world, FileSystemCache_init (3, 8)))
       = Inl (Exn PermissionError ''root'')
   \<and> isinstance_OSError (Exn PermissionError ''root'')
   \<and> fst (isfile_case ''root/x.py'' (demo_world, FileSystemCache_init (3, 8))) = Inr False"
proof -
  let ?s = "(demo_world, FileSystemCache_init (3, 8))"
  have 2: "fst (listdir ''root'' ?s) = Inl (Exn PermissionError ''root'')"
    and 3: "isinstance_OSError (Exn PermissionError ''root'')"
    by (simp_all add: meta_defs os_defs demo_defs isinstance_OSError_def)
  from isfile_case_exact_case [of "''pkg/''" ?s]
       isfile_case_exact_case [of "''pkg/Foo.py''" ?s]
       isfile_case_exact_case [of "''root/x.py''" ?s "Exn PermissionError ''root''"]
       2 3
  show ?thesis
    by (simp add: split_demo)
qed

section \<open>Stored failures\<close>

text \<open>
  C2. If \<open>stat\<close> on \<open>p\<close> fails with \<open>e\<close>, then after any further calls other than
  \<open>flush\<close> it fails with the same \<open>e\<close> and leaves the world and the caches as they are,
  so that no external read is made; the same holds for \<open>listdir\<close>. After a first
  \<open>stat\<close> on \<open>p\<close>, whatever its outcome, the number of recorded \<open>os.stat\<close> calls on
  \<open>p\<close> stays the same; from any state on, it grows by at most one as long as there is no
  \<open>flush\<close>. Likewise for \<open>os.listdir\<close>.
\<close>

theorem failure_replayed_without_os_call:
  assumes "Flush \<notin> set between" and "run between (w1, c1) = (rs, (w2, c2))"
  shows "(stat p (w, c) = (Inl e, (w1, c1)) \<longrightarrow> stat p (w2, c2) = (Inl e, (w2, c2)))
     \<and> (listdir p (w, c) = (Inl e, (w1, c1)) \<longrightarrow> listdir p (w2, c2) = (Inl e, (w2, c2)))
     \<and> (stat p (w, c) = (r, (w1, c1)) \<longrightarrow>
          count_list (syscalls w2) (OsStat p) = count_list (syscalls w1) (OsStat p))
     \<and> (listdir p (w, c) = (r', (w1, c1)) \<longrightarrow>
          count_list (syscalls w2) (OsListdir p) = count_list (syscalls w1) (OsListdir p))
     \<and> count_list (syscalls w2) (OsStat p) \<le> count_list (syscalls w1) (OsStat p) + 1
     \<and> count_list (syscalls w2) (OsListdir p) \<le> count_list (syscalls w1) (OsListdir p) + 1"
proof -
  note b = run_budgets [OF assms, of p]
  note m = run_meta_answers [OF assms, of p]
  note g = extends_count [OF run_extends [OF assms(2)]]
  have 1: "stat p (w2, c2) = (Inl e, (w2, c2))" if "stat p (w, c) = (Inl e, (w1, c1))"
  proof -
    from stat_fixes [OF that] m have "stat_answer c2 p = Some (Inl e)" by simp
    then show ?thesis by (rule stat_replay)
  qed
  have 2: "listdir p (w2, c2) = (Inl e, (w2, c2))" if "listdir p (w, c) = (Inl e, (w1, c1))"
  proof -
    from listdir_fixes [OF that] m have "listdir_answer c2 p = Some (Inl e)" by simp
    then show ?thesis by (rule listdir_replay)
  qed
  have 3: "count_list (syscalls w2) (OsStat p) = count_list (syscalls w1) (OsStat p)"
    if "stat p (w, c) = (r, (w1, c1))"
    using stat_fixes [OF that] b g [of "OsStat p"] by (simp add: stat_budget_def)
  have 4: "count_list (syscalls w2) (OsListdir p) = count_list (syscalls w1) (OsListdir p)"
    if "listdir p (w, c) = (r', (w1, c1))"
    using listdir_fixes [OF that] b g [of "OsListdir p"] by (simp add: listdir_budget_def)
  have 5: "count_list (syscalls w2) (OsStat p) \<le> count_list (syscalls w1) (OsStat p) + 1"
    using b by (simp add: stat_budget_def split: if_splits)
  have 6: "count_list (syscalls w2) (OsListdir p) \<le> count_list (syscalls w1) (OsListdir p) + 1"
    using b by (simp add: listdir_budget_def split: if_splits)
  from 1 2 3 4 5 6 show ?thesis by blast
qed

theorem failure_replayed_without_os_call_witness:
  "stat ''missing'' (demo_world, FileSystemCache_init (3, 8))
     = (Inl (Exn FileNotFoundError ''missing''),
        (demo_world\<lparr>syscalls := [OsStat ''missing'']\<rparr>,
         (FileSystemCache_init (3, 8))
           \<lparr>stat_error_cache := [''missing'' \<mapsto> Exn FileNotFoundError ''missing'']\<rparr>))
   \<and> run [Isfile ''missing'', Exists ''missing'']
         (demo_world\<lparr>syscalls := [OsStat ''missing'']\<rparr>,
          (FileSystemCache_init (3, 8))
            \<lparr>stat_error_cache := [''missing'' \<mapsto> Exn FileNotFoundError ''missing'']\<rparr>)
     = ([Inr (VBool False), Inr (VBool False)],
        (demo_world\<lparr>syscalls := [OsStat ''missing'']\<rparr>,
         (FileSystemCache_init (3, 8))
           \<lparr>stat_error_cache := [''missing'' \<mapsto> Exn FileNotFoundError ''missing'']\<rparr>))
   \<and> stat ''missing''
         (demo_world\<lparr>syscalls := [OsStat ''missing'']\<rparr>,
          (FileSystemCache_init (3, 8))
            \<lparr>stat_error_cache := [''missing'' \<mapsto> Exn FileNotFoundError ''missing'']\<rparr>)
     = (Inl (Exn FileNotFoundError ''missing''),
        (demo_world\<lparr>syscalls := [OsStat ''missing'']\<rparr>,
         (FileSystemCache_init (3, 8))
           \<lparr>stat_error_cache := [''missing'' \<mapsto> Exn FileNotFoundError ''missing'']\<rparr>))
   \<and> listdir ''missing'' (demo_world, FileSystemCache_init (3, 8))
     = (Inl (Exn FileNotFoundError ''missing''),
        (demo_world\<lparr>syscalls := [OsListdir ''missing'']\<rparr>,
         (FileSystemCache_init (3, 8))
           \<lparr>listdir_error_cache := [''missing'' \<mapsto> Exn FileNotFoundError ''missing'']\<rparr>))
   \<and> listdir ''missing''
         (demo_world\<lparr>syscalls := [OsListdir ''missing'']\<rparr>,
          (FileSystemCache_init (3, 8))
            \<lparr>listdir_error_cache := [''missing'' \<mapsto> Exn FileNotFoundError ''missing'']\<rparr>)
     = (Inl (Exn FileNotFoundError ''missing''),
        (demo_world\<lparr>syscalls := [OsListdir ''missing'']\<rparr>,
         (FileSystemCache_init (3, 8))
           \<lparr>listdir_error_cache := [''missing'' \<mapsto> Exn FileNotFoundError ''missing'']\<rparr>))"
proof -
  let ?e = "Exn FileNotFoundError ''missing''"
  let ?c = "FileSystemCache_init (3, 8)"
  let ?w1 = "demo_world\<lparr>syscalls := [OsStat ''missing'']\<rparr>"
  let ?c1 = "?c\<lparr>stat_error_cache := [''missing'' \<mapsto> ?e]\<rparr>"
  let ?w1' = "demo_world\<lparr>syscalls := [OsListdir ''missing'']\<rparr>"
  let ?c1' = "?c\<lparr>listdir_error_cache := [''missing'' \<mapsto> ?e]\<rparr>"
  have s: "stat ''missing'' (demo_world, ?c) = (Inl ?e, (?w1, ?c1))"
    by (simp add: meta_defs os_defs demo_defs)
  have l: "listdir ''missing'' (demo_world, ?c) = (Inl ?e, (?w1', ?c1'))"
    by (simp add: meta_defs os_defs demo_defs)
  have r: "run [Isfile ''missing'', Exists ''missing''] (?w1, ?c1)
      = ([Inr (VBool False), Inr (VBool False)], (?w1, ?c1))"
    by (simp add: all_defs demo_defs isinstance_OSError_def isinstance_FileNotFoundError_def)
  have r': "run [] (?w1', ?c1') = ([], (?w1', ?c1'))"
    by simp
  have n: "Flush \<notin> set [Isfile ''missing'', Exists ''missing'']" "Flush \<notin> set []"
    by simp_all
  from failure_replayed_without_os_call [OF n(1) r, of "''missing''" demo_world ?c ?e] s
  have 1: "stat ''missing'' (?w1, ?c1) = (Inl ?e, (?w1, ?c1))" by blast
  from failure_replayed_without_os_call [OF n(2) r', of "''missing''" demo_world ?c ?e] l
  have 2: "listdir ''missing'' (?w1', ?c1') = (Inl ?e, (?w1', ?c1'))" by blast
  from s r 1 l 2 show ?thesis by blast
qed

section \<open>The content caches\<close>

text \<open>
  C3. In a transaction (a \<open>flush\<close> followed by calls other than \<open>flush\<close>), a successful
  \<open>read_with_python_encoding\<close> of \<open>p\<close> leaves a stored \<open>stat\<close> result for \<open>p\<close>, and the
  record of external reads of the transaction holds the content read of \<open>p\<close> after an
  \<open>os.stat\<close> of \<open>p\<close>. If \<open>stat\<close> of \<open>p\<close> fails, then \<open>read_with_python_encoding\<close> of
  \<open>p\<close> raises the same exception with the same effect on the state, and the content
  cache, the fingerprint cache and the read-error cache have no entry for \<open>p\<close>.
\<close>

theorem stat_precedes_content_read:
  assumes "Flush \<notin> set ks" and "run ks (w0, flush c0) = (rs, (w, c))"
  shows "(read_with_python_encoding p (w, c) = (Inr d, (w', c')) \<longrightarrow>
            stat_cache c' p \<noteq> None
            \<and> (\<exists>pre post. drop (length (syscalls w0)) (syscalls w') = pre @ OsRead p # post
                  \<and> OsStat p \<in> set pre))
       \<and> (stat p (w, c) = (Inl e, (w', c')) \<longrightarrow>
            read_with_python_encoding p (w, c) = (Inl e, (w', c'))
            \<and> read_cache c' p = None \<and> hash_cache c' p = None
            \<and> read_error_cache c' p = None)"
proof (intro conjI impI)
  note inv = run_stat_first [OF assms flush_stat_first]
  {
    assume r: "read_with_python_encoding p (w, c) = (Inr d, (w', c'))"
    from read_stat_first [OF r inv] read_Inr_cached [OF r]
    have "stat_cache c' p \<noteq> None
        \<and> stat_then_read p (drop (length (syscalls w0)) (syscalls w'))"
      by (simp add: stat_first_def)
    then show "stat_cache c' p \<noteq> None"
      and "\<exists>pre post. drop (length (syscalls w0)) (syscalls w') = pre @ OsRead p # post
                  \<and> OsStat p \<in> set pre"
      by (simp_all add: stat_then_read_def)
  }
  {
    assume s: "stat p (w, c) = (Inl e, (w', c'))"
    from stat_Inl_uncached [OF s] inv
    have n: "read_cache c p = None" "read_error_cache c p = None"
      by (auto simp: stat_first_def)
    have "coupled c"
      using run_coupled [OF assms(2) flush_coupled] .
    with n have h: "hash_cache c p = None"
      by (simp add: coupledD [symmetric])
    from n s show "read_with_python_encoding p (w, c) = (Inl e, (w', c'))"
      by (simp add: read_with_python_encoding_def)
    from stat_frame [OF s] n h
    show "read_cache c' p = None" "hash_cache c' p = None" "read_error_cache c' p = None"
      by simp_all
  }
qed

theorem stat_precedes_content_read_witness:
  "run [Listdir ''pkg''] (demo_world, flush (FileSystemCache_init (3, 8)))
     = ([Inr (VNames [''Foo.py''])],
        (demo_world\<lparr>syscalls := [OsListdir ''pkg'']\<rparr>,
         (FileSystemCache_init (3, 8))\<lparr>listdir_cache := [''pkg'' \<mapsto> [''Foo.py'']]\<rparr>))
   \<and> read_with_python_encoding ''pkg/Foo.py''
        (demo_world\<lparr>syscalls := [OsListdir ''pkg'']\<rparr>,
         (FileSystemCache_init (3, 8))\<lparr>listdir_cache := [''pkg'' \<mapsto> [''Foo.py'']]\<rparr>)
     = (Inr ''x = 1'',
        (demo_world\<lparr>syscalls := [OsListdir ''pkg'', OsStat ''pkg/Foo.py'', OsRead ''pkg/Foo.py'']\<rparr>,
         (FileSystemCache_init (3, 8))
           \<lparr>stat_cache := [''pkg/Foo.py'' \<mapsto> regular_file],
            listdir_cache := [''pkg'' \<mapsto> [''Foo.py'']],
            read_cache := [''pkg/Foo.py'' \<mapsto> ''x = 1''],
            hash_cache := [''pkg/Foo.py'' \<mapsto> ''5b2d'']\<rparr>))
   \<and> (\<exists>pre post. [OsListdir ''pkg'', OsStat ''pkg/Foo.py'', OsRead ''pkg/Foo.py'']
          = pre @ OsRead ''pkg/Foo.py'' # post \<and> OsStat ''pkg/Foo.py'' \<in> set pre)
   \<and> stat ''missing''
        (demo_world\<lparr>syscalls := [OsListdir ''pkg'']\<rparr>,
         (FileSystemCache_init (3, 8))\<lparr>listdir_cache := [''pkg'' \<mapsto> [''Foo.py'']]\<rparr>)
     = (Inl (Exn FileNotFoundError ''missing''),
        (demo_world\<lparr>syscalls := [OsListdir ''pkg'', OsStat ''missing'']\<rparr>,
         (FileSystemCache_init (3, 8))
           \<lparr>listdir_cache := [''pkg'' \<mapsto> [''Foo.py'']],
            stat_error_cache := [''missing'' \<mapsto> Exn FileNotFoundError ''missing'']\<rparr>))
   \<and> read_with_python_encoding ''missing''
        (demo_world\<lparr>syscalls := [OsListdir ''pkg'']\<rparr>,
         (FileSystemCache_init (3, 8))\<lparr>listdir_cache := [''pkg'' \<mapsto> [''Foo.py'']]\<rparr>)
     = (Inl (Exn FileNotFoundError ''missing''),
        (demo_world\<lparr>syscalls := [OsListdir ''pkg'', OsStat ''missing'']\<rparr>,
         (FileSystemCache_init (3, 8))
           \<lparr>listdir_cache := [''pkg'' \<mapsto> [''Foo.py'']],
            stat_error_cache := [''missing'' \<mapsto> Exn FileNotFoundError ''missing'']\<rparr>))"
proof -
  let ?ini = "FileSystemCache_init (3, 8)"
  let ?w = "demo_world\<lparr>syscalls := [OsListdir ''pkg'']\<rparr>"
  let ?c = "?ini\<lparr>listdir_cache := [''pkg'' \<mapsto> [''Foo.py'']]\<rparr>"
  let ?w1 = "demo_world\<lparr>syscalls := [OsListdir ''pkg'', OsStat ''pkg/Foo.py'', OsRead ''pkg/Foo.py'']\<rparr>"
  let ?c1 = "?ini\<lparr>stat_cache := [''pkg/Foo.py'' \<mapsto> regular_file],
            listdir_cache := [''pkg'' \<mapsto> [''Foo.py'']],
            read_cache := [''pkg/Foo.py'' \<mapsto> ''x = 1''],
            hash_cache := [''pkg/Foo.py'' \<mapsto> ''5b2d'']\<rparr>"
  let ?w2 = "demo_world\<lparr>syscalls := [OsListdir ''pkg'', OsStat ''missing'']\<rparr>"
  let ?c2 = "?ini\<lparr>listdir_cache := [''pkg'' \<mapsto> [''Foo.py'']],
            stat_error_cache := [''missing'' \<mapsto> Exn FileNotFoundError ''missing'']\<rparr>"
  have n: "Flush \<notin> set [Listdir ''pkg'']" by simp
  have r: "run [Listdir ''pkg''] (demo_world, flush ?ini) = ([Inr (VNames [''Foo.py''])], (?w, ?c))"
    by (simp add: all_defs demo_defs)
  have a: "read_with_python_encoding ''pkg/Foo.py'' (?w, ?c) = (Inr ''x = 1'', (?w1, ?c1))"
    by (simp add: all_defs demo_defs)
  have b: "stat ''missing'' (?w, ?c) = (Inl (Exn FileNotFoundError ''missing''), (?w2, ?c2))"
    by (simp add: all_defs demo_defs)
  have l: "syscalls demo_world = []" by (simp add: demo_world_def)
  from stat_precedes_content_read [OF n r, of "''pkg/Foo.py''" "''x = 1''" ?w1 ?c1] a l
  have 1: "\<exists>pre post. [OsListdir ''pkg'', OsStat ''pkg/Foo.py'', OsRead ''pkg/Foo.py'']
          = pre @ OsRead ''pkg/Foo.py'' # post \<and> OsStat ''pkg/Foo.py'' \<in> set pre"
    by simp
  from stat_precedes_content_read [OF n r, of "''missing''" _ ?w2 ?c2 "Exn FileNotFoundError ''missing''"] b
  have 2: "read_with_python_encoding ''missing'' (?w, ?c) = (Inl (Exn FileNotFoundError ''missing''), (?w2, ?c2))"
    by blast
  from r a 1 b 2 show ?thesis by blast
qed

text \<open>
  C7. In a transaction, when \<open>read_with_python_encoding\<close> of \<open>p\<close> returns the text \<open>d\<close>,
  one call of the decoder on \<open>p\<close> in this transaction returned \<open>d\<close> together with a
  digest \<open>h\<close>. \<open>md5\<close> of \<open>p\<close> called instead of the read, in the same state, returns this
  \<open>h\<close> and leaves the state the read leaves, whether the digest was stored or \<open>md5\<close> had
  to make the read itself. After any further calls other than \<open>flush\<close>, \<open>md5\<close> of \<open>p\<close>
  returns \<open>h\<close> and \<open>read_with_python_encoding\<close> returns \<open>d\<close>, both without changing the
  world or the caches, hence without calling the decoder. For every path, \<open>md5\<close> raises
  what the read raises, and succeeds only where the read succeeds, with the same state.
\<close>

theorem fingerprint_belongs_to_text:
  assumes "Flush \<notin> set ks" and "run ks (w0, flush c0) = (rs, (w, c))"
    and "read_with_python_encoding p (w, c) = (Inr d, (w1, c1))"
    and "Flush \<notin> set later" and "run later (w1, c1) = (rs', (w2, c2))"
  shows "(\<exists>h i. length (syscalls w0) \<le> i \<and> i < length (syscalls w1)
           \<and> syscalls w1 ! i = OsRead p
           \<and> util_read_with_python_encoding (timeline w0 i) p (pyversion c0) = Inr (d, h)
           \<and> md5 p (w2, c2) = (Inr h, (w2, c2))
           \<and> read_with_python_encoding p (w2, c2) = (Inr d, (w2, c2))
           \<and> md5 p (w, c) = (Inr h, (w1, c1)))
       \<and> (read_with_python_encoding q (w, c) = (Inl e, s') \<longrightarrow> md5 q (w, c) = (Inl e, s'))
       \<and> (md5 q (w, c) = (Inr h', s') \<longrightarrow>
            (\<exists>d'. read_with_python_encoding q (w, c) = (Inr d', s')))"
proof (intro conjI impI)
  have cp0: "coupled c"
    using run_coupled [OF assms(2) flush_coupled] .
  have inv: "decoded (length (syscalls w0)) w1 c1"
    using read_decoded [OF assms(3) run_decoded [OF assms(1,2) flush_decoded]] .
  have cp: "coupled c1"
    using read_coupled [OF assms(3) cp0] .
  have t: "timeline w1 = timeline w0"
    using extends_trans [OF run_extends [OF assms(2)] read_extends [OF assms(3)]]
    by (simp add: extends_def)
  have "pyversion c = pyversion (flush c0)"
    using run_pyversion_eq [OF assms(2)] .
  moreover have "pyversion c1 = pyversion c"
    using assms(3) by (cases rule: read_cases) (auto dest: stat_frame)
  ultimately have v: "pyversion c1 = pyversion c0"
    by (simp add: flush_def meta_flush_def)
  from read_Inr_cached [OF assms(3)] inv obtain h i where hi: "hash_cache c1 p = Some h"
    "length (syscalls w0) \<le> i" "i < length (syscalls w1)" "syscalls w1 ! i = OsRead p"
    "util_read_with_python_encoding (timeline w1 i) p (pyversion c1) = Inr (d, h)"
    unfolding decoded_def by fastforce
  have k: "keeps c1 c2"
    using run_keeps [OF assms(4,5) cp] .
  have "md5_answer c1 p = Some (Inr h)"
    by (simp add: md5_answer_def hi(1))
  with k have "md5_answer c2 p = Some (Inr h)" by (simp add: keeps_def)
  then have m: "md5 p (w2, c2) = (Inr h, (w2, c2))" by (rule md5_replay)
  have "read_answer c1 p = Some (Inr d)"
    using read_fixes [OF assms(3)] .
  with k have "read_answer c2 p = Some (Inr d)" by (simp add: keeps_def)
  then have r: "read_with_python_encoding p (w2, c2) = (Inr d, (w2, c2))" by (rule read_replay)
  have f: "md5 p (w, c) = (Inr h, (w1, c1))"
    using md5_of_read_ok [OF cp0 assms(3) hi(1)] .
  from hi(2,3,4,5) t v m r f
  show "\<exists>h i. length (syscalls w0) \<le> i \<and> i < length (syscalls w1)
           \<and> syscalls w1 ! i = OsRead p
           \<and> util_read_with_python_encoding (timeline w0 i) p (pyversion c0) = Inr (d, h)
           \<and> md5 p (w2, c2) = (Inr h, (w2, c2))
           \<and> read_with_python_encoding p (w2, c2) = (Inr d, (w2, c2))
           \<and> md5 p (w, c) = (Inr h, (w1, c1))"
    by auto
  {
    assume "read_with_python_encoding q (w, c) = (Inl e, s')"
    then show "md5 q (w, c) = (Inl e, s')" by (rule md5_of_read_err [OF cp0])
  }
  {
    assume "md5 q (w, c) = (Inr h', s')"
    then show "\<exists>d'. read_with_python_encoding q (w, c) = (Inr d', s')"
      by (rule md5_ok_read_ok [OF cp0])
  }
qed

theorem fingerprint_belongs_to_text_witness:
  "run [Isfile ''pkg/Foo.py''] (vanishing_world, flush (FileSystemCache_init (3, 8)))
     = ([Inr (VBool True)],
        (vanishing_world\<lparr>syscalls := [OsStat ''pkg/Foo.py'']\<rparr>,
         (FileSystemCache_init (3, 8))\<lparr>stat_cache := [''pkg/Foo.py'' \<mapsto> regular_file]\<rparr>))
   \<and> read_with_python_encoding ''pkg/Foo.py''
        (vanishing_world\<lparr>syscalls := [OsStat ''pkg/Foo.py'']\<rparr>,
         (FileSystemCache_init (3, 8))\<lparr>stat_cache := [''pkg/Foo.py'' \<mapsto> regular_file]\<rparr>)
     = (Inr ''x = 1'',
        (vanishing_world\<lparr>syscalls := [OsStat ''pkg/Foo.py'', OsRead ''pkg/Foo.py'']\<rparr>,
         (FileSystemCache_init (3, 8))
           \<lparr>stat_cache := [''pkg/Foo.py'' \<mapsto> regular_file],
            read_cache := [''pkg/Foo.py'' \<mapsto> ''x = 1''],
            hash_cache := [''pkg/Foo.py'' \<mapsto> ''5b2d'']\<rparr>))
   \<and> run [Exists ''pkg'']
        (vanishing_world\<lparr>syscalls := [OsStat ''pkg/Foo.py'', OsRead ''pkg/Foo.py'']\<rparr>,
         (FileSystemCache_init (3, 8))
           \<lparr>stat_cache := [''pkg/Foo.py'' \<mapsto> regular_file],
            read_cache := [''pkg/Foo.py'' \<mapsto> ''x = 1''],
            hash_cache := [''pkg/Foo.py'' \<mapsto> ''5b2d'']\<rparr>)
     = ([Inr (VBool False)],
        (vanishing_world
           \<lparr>syscalls := [OsStat ''pkg/Foo.py'', OsRead ''pkg/Foo.py'', OsStat ''pkg'']\<rparr>,
         (FileSystemCache_init (3, 8))
           \<lparr>stat_cache := [''pkg/Foo.py'' \<mapsto> regular_file],
            stat_error_cache := [''pkg'' \<mapsto> Exn FileNotFoundError ''pkg''],
            read_cache := [''pkg/Foo.py'' \<mapsto> ''x = 1''],
            hash_cache := [''pkg/Foo.py'' \<mapsto> ''5b2d'']\<rparr>))
   \<and> util_read_with_python_encoding (timeline vanishing_world 1) ''pkg/Foo.py'' (3, 8)
     = Inr (''x = 1'', ''5b2d'')
   \<and> fst (md5 ''pkg/Foo.py''
        (vanishing_world
           \<lparr>syscalls := [OsStat ''pkg/Foo.py'', OsRead ''pkg/Foo.py'', OsStat ''pkg'']\<rparr>,
         (FileSystemCache_init (3, 8))
           \<lparr>stat_cache := [''pkg/Foo.py'' \<mapsto> regular_file],
            stat_error_cache := [''pkg'' \<mapsto> Exn FileNotFoundError ''pkg''],
            read_cache := [''pkg/Foo.py'' \<mapsto> ''x = 1''],
            hash_cache := [''pkg/Foo.py'' \<mapsto> ''5b2d'']\<rparr>)) = Inr ''5b2d''
   \<and> hash_cache ((FileSystemCache_init (3, 8))\<lparr>stat_cache := [''pkg/Foo.py'' \<mapsto> regular_file]\<rparr>)
        ''pkg/Foo.py'' = None
   \<and> md5 ''pkg/Foo.py''
        (vanishing_world\<lparr>syscalls := [OsStat ''pkg/Foo.py'']\<rparr>,
         (FileSystemCache_init (3, 8))\<lparr>stat_cache := [''pkg/Foo.py'' \<mapsto> regular_file]\<rparr>)
     = (Inr ''5b2d'',
        (vanishing_world\<lparr>syscalls := [OsStat ''pkg/Foo.py'', OsRead ''pkg/Foo.py'']\<rparr>,
         (FileSystemCache_init (3, 8))
           \<lparr>stat_cache := [''pkg/Foo.py'' \<mapsto> regular_file],
            read_cache := [''pkg/Foo.py'' \<mapsto> ''x = 1''],
            hash_cache := [''pkg/Foo.py'' \<mapsto> ''5b2d'']\<rparr>))
   \<and> read_with_python_encoding ''missing''
        (vanishing_world\<lparr>syscalls := [OsStat ''pkg/Foo.py'']\<rparr>,
         (FileSystemCache_init (3, 8))\<lparr>stat_cache := [''pkg/Foo.py'' \<mapsto> regular_file]\<rparr>)
     = (Inl (Exn FileNotFoundError ''missing''),
        (vanishing_world\<lparr>syscalls := [OsStat ''pkg/Foo.py'', OsStat ''missing'']\<rparr>,
         (FileSystemCache_init (3, 8))
           \<lparr>stat_cache := [''pkg/Foo.py'' \<mapsto> regular_file],
            stat_error_cache := [''missing'' \<mapsto> Exn FileNotFoundError ''missing'']\<rparr>))
   \<and> md5 ''missing''
        (vanishing_world\<lparr>syscalls := [OsStat ''pkg/Foo.py'']\<rparr>,
         (FileSystemCache_init (3, 8))\<lparr>stat_cache := [''pkg/Foo.py'' \<mapsto> regular_file]\<rparr>)
     = (Inl (Exn FileNotFoundError ''missing''),
        (vanishing_world\<lparr>syscalls := [OsStat ''pkg/Foo.py'', OsStat ''missing'']\<rparr>,
         (FileSystemCache_init (3, 8))
           \<lparr>stat_cache := [''pkg/Foo.py'' \<mapsto> regular_file],
            stat_error_cache := [''missing'' \<mapsto> Exn FileNotFoundError ''missing'']\<rparr>))"
proof -
  let ?ini = "FileSystemCache_init (3, 8)"
  let ?w = "vanishing_world\<lparr>syscalls := [OsStat ''pkg/Foo.py'']\<rparr>"
  let ?c = "?ini\<lparr>stat_cache := [''pkg/Foo.py'' \<mapsto> regular_file]\<rparr>"
  let ?wa = "vanishing_world\<lparr>syscalls := [OsStat ''pkg/Foo.py'', OsRead ''pkg/Foo.py'']\<rparr>"
  let ?ca = "?ini\<lparr>stat_cache := [''pkg/Foo.py'' \<mapsto> regular_file],
            read_cache := [''pkg/Foo.py'' \<mapsto> ''x = 1''],
            hash_cache := [''pkg/Foo.py'' \<mapsto> ''5b2d'']\<rparr>"
  let ?wb = "vanishing_world
           \<lparr>syscalls := [OsStat ''pkg/Foo.py'', OsRead ''pkg/Foo.py'', OsStat ''pkg'']\<rparr>"
  let ?cb = "?ini\<lparr>stat_cache := [''pkg/Foo.py'' \<mapsto> regular_file],
            stat_error_cache := [''pkg'' \<mapsto> Exn FileNotFoundError ''pkg''],
            read_cache := [''pkg/Foo.py'' \<mapsto> ''x = 1''],
            hash_cache := [''pkg/Foo.py'' \<mapsto> ''5b2d'']\<rparr>"
  let ?wm = "vanishing_world\<lparr>syscalls := [OsStat ''pkg/Foo.py'', OsStat ''missing'']\<rparr>"
  let ?cm = "?ini\<lparr>stat_cache := [''pkg/Foo.py'' \<mapsto> regular_file],
            stat_error_cache := [''missing'' \<mapsto> Exn FileNotFoundError ''missing'']\<rparr>"
  let ?e = "Exn FileNotFoundError ''missing''"
  have n: "Flush \<notin> set [Isfile ''pkg/Foo.py'']" "Flush \<notin> set [Exists ''pkg'']"
    by simp_all
  have r: "run [Isfile ''pkg/Foo.py''] (vanishing_world, flush ?ini) = ([Inr (VBool True)], (?w, ?c))"
    by (simp add: all_defs demo_defs S_ISREG_def S_IFMT_def)
  have a: "read_with_python_encoding ''pkg/Foo.py'' (?w, ?c) = (Inr ''x = 1'', (?wa, ?ca))"
    by (simp add: all_defs demo_defs)
  have b: "run [Exists ''pkg''] (?wa, ?ca) = ([Inr (VBool False)], (?wb, ?cb))"
    by (simp add: all_defs demo_defs isinstance_FileNotFoundError_def)
  have u: "util_read_with_python_encoding (timeline vanishing_world 1) ''pkg/Foo.py'' (3, 8)
     = Inr (''x = 1'', ''5b2d'')"
    by (simp add: demo_defs)
  have f: "hash_cache ?c ''pkg/Foo.py'' = None"
    by (simp add: demo_defs)
  have x: "read_with_python_encoding ''missing'' (?w, ?c) = (Inl ?e, (?wm, ?cm))"
    by (simp add: all_defs demo_defs)
  note t = fingerprint_belongs_to_text [OF n(1) r a n(2) b, of "''missing''" ?e "(?wm, ?cm)"]
  from t obtain h i where hi: "i < length (syscalls ?wa)" "syscalls ?wa ! i = OsRead ''pkg/Foo.py''"
    "util_read_with_python_encoding (timeline vanishing_world i) ''pkg/Foo.py''
       (pyversion ?ini) = Inr (''x = 1'', h)"
    "md5 ''pkg/Foo.py'' (?wb, ?cb) = (Inr h, (?wb, ?cb))"
    "md5 ''pkg/Foo.py'' (?w, ?c) = (Inr h, (?wa, ?ca))"
    by blast
  from hi(1,2) have "i = 1"
    by (cases i) simp_all
  with hi(3) u have h: "h = ''5b2d''"
    by (simp add: demo_defs)
  with hi(4) have m: "fst (md5 ''pkg/Foo.py'' (?wb, ?cb)) = Inr ''5b2d''"
    by simp
  from h hi(5) have g: "md5 ''pkg/Foo.py'' (?w, ?c) = (Inr ''5b2d'', (?wa, ?ca))"
    by simp
  from t x have y: "md5 ''missing'' (?w, ?c) = (Inl ?e, (?wm, ?cm))"
    by blast
  from fingerprint_belongs_to_text
         [OF n(1) r a n(2) b, of "''pkg/Foo.py''" _ "(?wa, ?ca)" "''5b2d''"] g
  have "\<exists>d'. read_with_python_encoding ''pkg/Foo.py'' (?w, ?c) = (Inr d', (?wa, ?ca))"
    by blast
  with r a b u m f g x y show ?thesis by blast
qed

end
